theory Spec2Isabelle
  imports Main "HOL-Library.Char_ord" "HOL-Library.List_Lexorder" "HOL-Library.Product_Lexorder"
begin

section \<open>Python text\<close>

text \<open>
  A Python \<open>str\<close> is modelled by \<open>string\<close>: the character with number \<open>n\<close> stands for the
  code point \<open>n\<close>, so the model covers text in the range U+0000 .. U+00FF (ASCII and
  Latin-1). The tables below are those of CPython for that range. A literal of the
  source with a character beyond the range (the check mark and the dash in two
  messages) is written as its UTF-8 bytes; no function of the model inspects such a
  literal. Comparison of strings is lexicographic by code point, as in Python.
\<close>

definition py_isspace :: "char \<Rightarrow> bool" where
  \<comment> \<open>\<open>str.isspace\<close> on one character: what \<open>strip()\<close> and \<open>split()\<close> treat as white space.\<close>
  "py_isspace c =
     (let n = (of_char c :: nat)
      in (9 \<le> n \<and> n \<le> 13) \<or> (28 \<le> n \<and> n \<le> 32) \<or> n = 133 \<or> n = 160)"

definition py_strip :: "string \<Rightarrow> string" where
  \<comment> \<open>\<open>s.strip()\<close>\<close>
  "py_strip s = rev (dropWhile py_isspace (rev (dropWhile py_isspace s)))"

fun py_split_on :: "char \<Rightarrow> string \<Rightarrow> string list" where
  \<comment> \<open>\<open>s.split(sep)\<close> for a separator of one character: never the empty list.\<close>
  "py_split_on sep [] = [[]]"
| "py_split_on sep (c # cs) =
     (if c = sep then [] # py_split_on sep cs
      else (case py_split_on sep cs of
              [] \<Rightarrow> [[c]]
            | w # ws \<Rightarrow> (c # w) # ws))"

fun py_split :: "string \<Rightarrow> string list" where
  \<comment> \<open>\<open>s.split()\<close>: the maximal runs of characters that are not white space.\<close>
  "py_split [] = []"
| "py_split [c] = (if py_isspace c then [] else [[c]])"
| "py_split (c # d # cs) =
     (if py_isspace c then py_split (d # cs)
      else if py_isspace d then [c] # py_split (d # cs)
      else (case py_split (d # cs) of
              [] \<Rightarrow> [[c]]
            | w # ws \<Rightarrow> (c # w) # ws))"

definition py_linebreak :: "char \<Rightarrow> bool" where
  \<comment> \<open>The line boundaries of \<open>str.splitlines\<close> below U+0100.\<close>
  "py_linebreak c =
     (let n = (of_char c :: nat)
      in (10 \<le> n \<and> n \<le> 13) \<or> (28 \<le> n \<and> n \<le> 30) \<or> n = 133)"

fun splitlines_from :: "string \<Rightarrow> string \<Rightarrow> string list" where
  \<comment> \<open>The first argument is the current line, reversed.\<close>
  "splitlines_from cur [] = (if cur = [] then [] else [rev cur])"
| "splitlines_from cur [c] = (if py_linebreak c then [rev cur] else [rev (c # cur)])"
| "splitlines_from cur (c # d # cs) =
     (if c = CHR 0x0D \<and> d = CHR 0x0A then rev cur # splitlines_from [] cs
      else if py_linebreak c then rev cur # splitlines_from [] (d # cs)
      else splitlines_from (c # cur) (d # cs))"

definition py_splitlines :: "string \<Rightarrow> string list" where
  \<comment> \<open>\<open>s.splitlines()\<close>: a line break at the very end opens no further line.\<close>
  "py_splitlines s = splitlines_from [] s"

definition py_lower_char :: "char \<Rightarrow> char" where
  "py_lower_char c =
     (let n = (of_char c :: nat)
      in if (65 \<le> n \<and> n \<le> 90) \<or> (192 \<le> n \<and> n \<le> 222 \<and> n \<noteq> 215)
         then char_of (n + 32) else c)"

definition py_lower :: "string \<Rightarrow> string" where
  \<comment> \<open>\<open>s.lower()\<close>\<close>
  "py_lower s = map py_lower_char s"

definition py_startswith :: "string \<Rightarrow> string \<Rightarrow> bool" where
  \<comment> \<open>\<open>s.startswith(p)\<close>\<close>
  "py_startswith s p = (take (length p) s = p)"

fun py_in :: "string \<Rightarrow> string \<Rightarrow> bool" where
  \<comment> \<open>\<open>sub in s\<close>\<close>
  "py_in sub [] = (sub = [])"
| "py_in sub (c # cs) = (py_startswith (c # cs) sub \<or> py_in sub cs)"

fun py_join :: "string \<Rightarrow> string list \<Rightarrow> string" where
  \<comment> \<open>\<open>sep.join(xs)\<close>\<close>
  "py_join sep [] = []"
| "py_join sep [x] = x"
| "py_join sep (x # y # ys) = x @ sep @ py_join sep (y # ys)"

definition py_or :: "string \<Rightarrow> string \<Rightarrow> string" where
  \<comment> \<open>\<open>a or b\<close> on strings: the empty string is false.\<close>
  "py_or a b = (if a \<noteq> [] then a else b)"

definition is_digit :: "char \<Rightarrow> bool" where
  "is_digit c = (let n = (of_char c :: nat) in 48 \<le> n \<and> n \<le> 57)"

definition digit_val :: "char \<Rightarrow> nat" where
  "digit_val c = of_char c - 48"

definition nat_of_digits :: "string \<Rightarrow> nat" where
  "nat_of_digits ds = foldl (\<lambda>acc c. 10 * acc + digit_val c) 0 ds"

fun digits_ok :: "bool \<Rightarrow> string \<Rightarrow> bool" where
  \<comment> \<open>Digits with single underscores between them; the flag says that the character
      before was a digit.\<close>
  "digits_ok prev [] = prev"
| "digits_ok prev (c # cs) =
     (if is_digit c then digits_ok True cs
      else if c = CHR ''_'' \<and> prev then digits_ok False cs
      else False)"

definition py_int_space :: "char \<Rightarrow> bool" where
  \<comment> \<open>What \<open>int()\<close> drops around a literal: the white space of C (tab to carriage
      return, and the space) and, of the characters from U+0080 on, the white space of
      Unicode. The separators U+001C .. U+001F, which \<open>strip()\<close> drops, are not among
      them.\<close>
  "py_int_space c =
     (let n = (of_char c :: nat)
      in (9 \<le> n \<and> n \<le> 13) \<or> n = 32 \<or> n = 133 \<or> n = 160)"

definition py_int :: "string \<Rightarrow> int option" where
  \<comment> \<open>\<open>int(s)\<close> in base ten; \<open>None\<close> is \<open>ValueError\<close>. White space around the literal is
      dropped, one sign is allowed. The interpreter's limit on the number of digits (a
      setting of newer versions) is not modelled.\<close>
  "py_int s =
     (let t = rev (dropWhile py_int_space (rev (dropWhile py_int_space s)));
          neg = (t \<noteq> [] \<and> hd t = CHR ''-'');
          body = (if t \<noteq> [] \<and> (hd t = CHR ''-'' \<or> hd t = CHR ''+'') then tl t else t);
          n = int (nat_of_digits (filter is_digit body))
      in if digits_ok False body then Some (if neg then - n else n) else None)"

section \<open>Python values\<close>

text \<open>
  The values that steps, the state file and the HTTP body carry: \<open>None\<close>, booleans,
  integers, strings, lists, tuples and dictionaries with string keys, in insertion
  order. Floats are outside the model.
\<close>

datatype pyval =
    PNone
  | PBool bool
  | PInt int
  | PStr string
  | PList "pyval list"
  | PTuple "pyval list"
  | PDict "(string \<times> pyval) list"

type_synonym pydict = "(string \<times> pyval) list"

fun truthy :: "pyval \<Rightarrow> bool" where
  \<comment> \<open>\<open>bool(v)\<close>, which \<open>if v\<close> and \<open>not v\<close> test.\<close>
  "truthy PNone = False"
| "truthy (PBool b) = b"
| "truthy (PInt i) = (i \<noteq> 0)"
| "truthy (PStr s) = (s \<noteq> [])"
| "truthy (PList xs) = (xs \<noteq> [])"
| "truthy (PTuple xs) = (xs \<noteq> [])"
| "truthy (PDict kvs) = (kvs \<noteq> [])"

definition dict_get :: "pydict \<Rightarrow> string \<Rightarrow> pyval" where
  \<comment> \<open>\<open>d.get(k)\<close>: \<open>None\<close> for a missing key.\<close>
  "dict_get d k = (case map_of d k of None \<Rightarrow> PNone | Some v \<Rightarrow> v)"

fun dict_set :: "pydict \<Rightarrow> string \<Rightarrow> pyval \<Rightarrow> pydict" where
  \<comment> \<open>\<open>d[k] = v\<close>: a present key keeps its place, a new one goes last.\<close>
  "dict_set [] k v = [(k, v)]"
| "dict_set ((k', v') # d) k v =
     (if k' = k then (k, v) # d else (k', v') # dict_set d k v)"

datatype py_error =
    OSError
  | UnicodeDecodeError
  | ValueError
  | AttributeError

section \<open>The operating system\<close>

text \<open>
  What a started command does is not in the repository: it is a parameter. A world
  answers, for the commands run so far and the command to run now, how the new
  process behaves.
\<close>

record proc =
  starts :: bool
  finishes_within :: "nat \<Rightarrow> bool"
  returncode :: int
  stdout :: "string option"
  stderr :: "string option"

text \<open>
  \<open>starts\<close> is false when the program cannot be executed (the call raises
  \<open>FileNotFoundError\<close> or \<open>PermissionError\<close>, both \<open>OSError\<close>); \<open>finishes_within p t\<close> says
  whether the process has ended \<open>t\<close> seconds after its start; \<open>stdout\<close> and \<open>stderr\<close> are
  the decoded outputs, \<open>None\<close> when the bytes are not valid text.
\<close>

datatype event = Exec "string list" nat | Kill "string list"

type_synonym trace = "event list"

type_synonym world = "trace \<Rightarrow> string list \<Rightarrow> proc"

type_synonym cmd_result = "int \<times> string \<times> string"

section \<open>bootstrap/utils/nmcli\_utils.py\<close>

definition underscore_run :: "world \<Rightarrow> string list \<Rightarrow> nat \<Rightarrow> trace \<Rightarrow> (py_error + cmd_result) \<times> trace" where
  \<comment> \<open>\<open>_run(cmd, timeout)\<close>\<close>
  "underscore_run w cmd timeout tr =
     (let p = w tr cmd in
      if \<not> starts p then (Inl OSError, tr @ [Exec cmd timeout])
      else if \<not> finishes_within p timeout
        then (Inr (1, [], ''Timeout''), tr @ [Exec cmd timeout, Kill cmd])
      else (case (stdout p, stderr p) of
              (Some out, Some err) \<Rightarrow>
                (Inr (returncode p, py_strip out, py_strip err), tr @ [Exec cmd timeout])
            | _ \<Rightarrow> (Inl UnicodeDecodeError, tr @ [Exec cmd timeout])))"

definition net_entry :: "string \<Rightarrow> int \<Rightarrow> pydict" where
  \<comment> \<open>\<open>{"ssid": ssid, "signal": signal}\<close>\<close>
  "net_entry ssid signal = [(''ssid'', PStr ssid), (''signal'', PInt signal)]"

fun scan_loop :: "pydict list \<Rightarrow> string list \<Rightarrow> py_error + pydict list" where
  \<comment> \<open>The \<open>for line in out.splitlines()\<close> loop of \<open>scan_networks\<close>, \<open>nets\<close> first.\<close>
  "scan_loop nets [] = Inr nets"
| "scan_loop nets (line # rest) =
     (case take 2 (py_split_on CHR '':'' line @ [''0'']) of
        [ssid, sig] \<Rightarrow>
          if ssid \<noteq> [] then
            (case py_int sig of
               None \<Rightarrow> Inl ValueError
             | Some n \<Rightarrow> scan_loop (nets @ [net_entry ssid n]) rest)
          else scan_loop nets rest
      | _ \<Rightarrow> Inl ValueError)"

definition scan_networks :: "world \<Rightarrow> trace \<Rightarrow> (py_error + pydict list) \<times> trace" where
  "scan_networks w tr =
     (case underscore_run w [''nmcli'', ''-t'', ''-f'', ''SSID,SIGNAL'', ''device'', ''wifi'', ''list''] 10 tr of
        (Inl e, tr') \<Rightarrow> (Inl e, tr')
      | (Inr (rc, out, err), tr') \<Rightarrow> (scan_loop [] (py_splitlines out), tr'))"

definition connect_network :: "world \<Rightarrow> string \<Rightarrow> string \<Rightarrow> trace \<Rightarrow> (py_error + bool \<times> string) \<times> trace" where
  "connect_network w ssid password tr =
     (let cmd = [''sudo'', ''nmcli'', ''device'', ''wifi'', ''connect'', ssid]
                @ (if password \<noteq> [] then [''password'', password] else [])
      in case underscore_run w cmd 30 tr of
           (Inl e, tr') \<Rightarrow> (Inl e, tr')
         | (Inr (rc, out, err), tr') \<Rightarrow>
             (let ok = (rc = 0) in (Inr (ok, if ok then out else err), tr')))"

definition get_connectivity :: "world \<Rightarrow> trace \<Rightarrow> (py_error + bool) \<times> trace" where
  \<comment> \<open>\<open>rc, _, _ = await _run(...)\<close> binds \<open>_\<close> twice: the name holds the third
      component, the error output, when \<open>"full" in _.lower()\<close> reads it.\<close>
  "get_connectivity w tr =
     (case underscore_run w [''nmcli'', ''-t'', ''-f'', ''CONNECTIVITY'', ''general''] 10 tr of
        (Inl e, tr') \<Rightarrow> (Inl e, tr')
      | (Inr (rc, out, err), tr') \<Rightarrow>
          (Inr (if rc = 0 then py_in ''full'' (py_lower err) else False), tr'))"

fun first_private :: "(string \<Rightarrow> bool option) \<Rightarrow> string list \<Rightarrow> string option" where
  \<comment> \<open>The \<open>for ip in ips\<close> loop of \<open>get_ip_address\<close>: the first address that parses and
      is private; \<open>None\<close> when the loop ends without a \<open>return\<close>.\<close>
  "first_private is_private [] = None"
| "first_private is_private (ip # ips) =
     (case is_private ip of
        Some True \<Rightarrow> Some ip
      | Some False \<Rightarrow> first_private is_private ips
      | None \<Rightarrow> first_private is_private ips)"

definition get_ip_address :: "world \<Rightarrow> (string \<Rightarrow> bool option) \<Rightarrow> trace \<Rightarrow> (py_error + string option) \<times> trace" where
  \<comment> \<open>The parameter \<open>is_private\<close> is \<open>ipaddress.ip_address(ip).is_private\<close> of the Python
      library, for IPv4 and IPv6 addresses alike; \<open>None\<close> is its \<open>ValueError\<close>.\<close>
  "get_ip_address w is_private tr =
     (case underscore_run w [''hostname'', ''-I''] 10 tr of
        (Inl e, tr') \<Rightarrow> (Inl e, tr')
      | (Inr (rc, out, err), tr') \<Rightarrow>
          (let ips = filter (\<lambda>i. i \<noteq> [] \<and> \<not> py_startswith i ''127.'') (py_split out)
           in (Inr (case first_private is_private ips of
                      Some ip \<Rightarrow> Some ip
                    | None \<Rightarrow> (case ips of [] \<Rightarrow> None | ip # _ \<Rightarrow> Some ip)), tr')))"


section \<open>The json module of the Python library\<close>

text \<open>
  \<open>json.loads\<close> and \<open>json.dumps\<close> are called by the repository and are not part of it.
  They are modelled after CPython's \<open>json/decoder.py\<close>, \<open>json/scanner.py\<close> and
  \<open>json/encoder.py\<close>, for the values of \<open>pyval\<close>. The recursion limit of the interpreter
  and its limit on the digits of an integer are not modelled.
\<close>

subsection \<open>json.loads\<close>

text \<open>
  The outcome of scanning a prefix of a text: the value and the rest of the text, a
  syntax error, or a text that leads beyond the modelled values (a float literal,
  \<open>NaN\<close>, \<open>Infinity\<close>, or an escape \<open>\uXXXX\<close> of a code point from U+0100 on).
\<close>

datatype 'a scan = Got 'a string | Bad | Beyond

definition json_ws :: "char \<Rightarrow> bool" where
  "json_ws c = (c = CHR '' '' \<or> c = CHR 0x09 \<or> c = CHR 0x0A \<or> c = CHR 0x0D)"

definition skip_ws :: "string \<Rightarrow> string" where
  "skip_ws s = dropWhile json_ws s"

definition hex_val :: "char \<Rightarrow> nat option" where
  "hex_val c =
     (let n = (of_char c :: nat)
      in if 48 \<le> n \<and> n \<le> 57 then Some (n - 48)
         else if 97 \<le> n \<and> n \<le> 102 then Some (n - 87)
         else if 65 \<le> n \<and> n \<le> 70 then Some (n - 55)
         else None)"

definition hex4 :: "string \<Rightarrow> nat option" where
  "hex4 s =
     (case map hex_val (take 4 s) of
        [Some a, Some b, Some c, Some d] \<Rightarrow> Some (((a * 16 + b) * 16 + c) * 16 + d)
      | _ \<Rightarrow> None)"

definition unescape :: "char \<Rightarrow> char option" where
  "unescape e =
     (if e = CHR 0x22 \<or> e = CHR 0x5C \<or> e = CHR ''/'' then Some e
      else if e = CHR ''b'' then Some (CHR 0x08)
      else if e = CHR ''f'' then Some (CHR 0x0C)
      else if e = CHR ''n'' then Some (CHR 0x0A)
      else if e = CHR ''r'' then Some (CHR 0x0D)
      else if e = CHR ''t'' then Some (CHR 0x09)
      else None)"

definition scan_cons :: "char \<Rightarrow> string scan \<Rightarrow> string scan" where
  "scan_cons c r = (case r of Got s rest \<Rightarrow> Got (c # s) rest | Bad \<Rightarrow> Bad | Beyond \<Rightarrow> Beyond)"

text \<open>\<open>scanstring\<close>: the text after the opening quote, in strict mode.\<close>

function scanstring :: "string \<Rightarrow> string scan" where
  "scanstring [] = Bad"
| "scanstring (c # cs) =
     (if c = CHR 0x22 then Got [] cs
      else if c = CHR 0x5C then
        (case cs of
           [] \<Rightarrow> Bad
         | e # r \<Rightarrow>
             if e = CHR ''u'' then
               (case hex4 r of
                  None \<Rightarrow> Bad
                | Some n \<Rightarrow> if n < 256 then scan_cons (char_of n) (scanstring (drop 4 r)) else Beyond)
             else
               (case unescape e of
                  None \<Rightarrow> Bad
                | Some ch \<Rightarrow> scan_cons ch (scanstring r)))
      else if (of_char c :: nat) < 32 then Bad
      else scan_cons c (scanstring cs))"
  by pat_completeness auto
termination
  by (relation "measure length") auto


lemma length_skip_ws: "length (skip_ws s) \<le> length s"
  by (simp add: skip_ws_def length_dropWhile_le)

lemma scanstring_shorter: "scanstring s = Got k r \<Longrightarrow> length r < length s"
proof (induction s arbitrary: k r rule: scanstring.induct)
  case 1
  then show ?case by simp
next
  case (2 c cs)
  then show ?case
    by (fastforce simp: scan_cons_def split: if_splits list.splits option.splits scan.splits)
qed

definition is_frac :: "string \<Rightarrow> bool" where
  "is_frac s = (case s of p # d # _ \<Rightarrow> p = CHR ''.'' \<and> is_digit d | _ \<Rightarrow> False)"

definition is_exp :: "string \<Rightarrow> bool" where
  "is_exp s =
     (case s of
        e # d # r \<Rightarrow>
          (e = CHR ''e'' \<or> e = CHR ''E'') \<and>
          (is_digit d \<or> ((d = CHR ''+'' \<or> d = CHR ''-'') \<and> (case r of d' # _ \<Rightarrow> is_digit d' | [] \<Rightarrow> False)))
      | _ \<Rightarrow> False)"

definition scan_number :: "string \<Rightarrow> pyval scan" where
  "scan_number s =
     (let neg = (s \<noteq> [] \<and> hd s = CHR ''-'');
          t = (if neg then tl s else s)
      in case t of
           [] \<Rightarrow> Bad
         | c # r \<Rightarrow>
             if \<not> is_digit c then (if neg \<and> py_startswith t ''Infinity'' then Beyond else Bad)
             else
               (let ds = (if c = CHR ''0'' then [c] else c # takeWhile is_digit r);
                    rest = (if c = CHR ''0'' then r else dropWhile is_digit r);
                    n = int (nat_of_digits ds)
                in if is_frac rest \<or> is_exp rest then Beyond
                   else Got (PInt (if neg then - n else n)) rest))"

definition scan_atom :: "string \<Rightarrow> pyval scan" where
  "scan_atom s =
     (if py_startswith s ''null'' then Got PNone (drop 4 s)
      else if py_startswith s ''true'' then Got (PBool True) (drop 4 s)
      else if py_startswith s ''false'' then Got (PBool False) (drop 5 s)
      else if py_startswith s ''NaN'' \<or> py_startswith s ''Infinity'' then Beyond
      else scan_number s)"

text \<open>
  \<open>scan_value\<close> is the decoder's \<open>scan_once\<close>; \<open>scan_items\<close> is the loop of \<open>JSONArray\<close> and
  \<open>scan_members\<close> the loop of \<open>JSONObject\<close> (after the opening quote of a key), each with
  the values read so far. The two tests \<open>length r < length s\<close> always succeed (a scan
  that returns has consumed a character, see \<open>scan_value_shorter\<close>); they are what
  the termination proof rests on.
\<close>

function scan_value :: "string \<Rightarrow> pyval scan"
  and scan_items :: "pyval list \<Rightarrow> string \<Rightarrow> pyval list scan"
  and scan_members :: "pydict \<Rightarrow> string \<Rightarrow> pydict scan" where
  "scan_value [] = Bad"
| "scan_value (c # cs) =
     (if c = CHR 0x22 then
        (case scanstring cs of Got s r \<Rightarrow> Got (PStr s) r | Bad \<Rightarrow> Bad | Beyond \<Rightarrow> Beyond)
      else if c = CHR ''{'' then
        (case skip_ws cs of
           [] \<Rightarrow> Bad
         | d # r \<Rightarrow>
             if d = CHR ''}'' then Got (PDict []) r
             else if d = CHR 0x22 then
               (case scan_members [] r of Got kvs r' \<Rightarrow> Got (PDict kvs) r' | Bad \<Rightarrow> Bad | Beyond \<Rightarrow> Beyond)
             else Bad)
      else if c = CHR ''['' then
        (case skip_ws cs of
           [] \<Rightarrow> Bad
         | d # r \<Rightarrow>
             if d = CHR '']'' then Got (PList []) r
             else (case scan_items [] (d # r) of Got xs r' \<Rightarrow> Got (PList xs) r' | Bad \<Rightarrow> Bad | Beyond \<Rightarrow> Beyond))
      else scan_atom (c # cs))"
| "scan_items acc s =
     (case scan_value s of
        Got v r \<Rightarrow>
          if length r < length s then
            (case skip_ws r of
               [] \<Rightarrow> Bad
             | d # r' \<Rightarrow>
                 if d = CHR '']'' then Got (acc @ [v]) r'
                 else if d = CHR '','' then scan_items (acc @ [v]) (skip_ws r')
                 else Bad)
          else Bad
      | Bad \<Rightarrow> Bad
      | Beyond \<Rightarrow> Beyond)"
| "scan_members acc s =
     (case scanstring s of
        Got k r1 \<Rightarrow>
          (case skip_ws r1 of
             [] \<Rightarrow> Bad
           | d # r2 \<Rightarrow>
               if d = CHR '':'' then
                 (case scan_value (skip_ws r2) of
                    Got v r3 \<Rightarrow>
                      if length r3 < length s then
                        (case skip_ws r3 of
                           [] \<Rightarrow> Bad
                         | d' # r4 \<Rightarrow>
                             if d' = CHR ''}'' then Got (dict_set acc k v) r4
                             else if d' = CHR '','' then
                               (case skip_ws r4 of
                                  [] \<Rightarrow> Bad
                                | q # r5 \<Rightarrow>
                                    if q = CHR 0x22 then scan_members (dict_set acc k v) r5 else Bad)
                             else Bad)
                      else Bad
                  | Bad \<Rightarrow> Bad
                  | Beyond \<Rightarrow> Beyond)
               else Bad)
      | Bad \<Rightarrow> Bad
      | Beyond \<Rightarrow> Beyond)"
  by pat_completeness auto
termination
proof (relation "measure (\<lambda>x. case x of
          Inl s \<Rightarrow> 2 * length s
        | Inr (Inl (acc, s)) \<Rightarrow> 2 * length s + 1
        | Inr (Inr (acc, s)) \<Rightarrow> 2 * length s + 1)", goal_cases)
  case 1
  then show ?case by simp
next
  case (2 c cs d r)
  then show ?case using length_skip_ws [of cs] by simp
next
  case (3 c cs d r)
  then show ?case using length_skip_ws [of cs] by simp
next
  case (4 acc s)
  then show ?case by simp
next
  case (5 acc s v r d r')
  then show ?case using length_skip_ws [of r] length_skip_ws [of r'] by simp
next
  case (6 acc s k r1 d r2)
  then show ?case
    using length_skip_ws [of r1] length_skip_ws [of r2] scanstring_shorter [of s k r1] by simp
next
  case (7 acc s k r1 d r2 v r3 d' r4 q r5)
  then show ?case
    using length_skip_ws [of r3] length_skip_ws [of r4] by simp
qed


text \<open>
  \<open>json.loads\<close>: the value, \<open>JSONDecodeError\<close>, or \<open>Unmodelled\<close> for a text on which the
  model says nothing because it leads beyond the modelled values.
\<close>

datatype loads_result = Value pyval | JSONDecodeError | Unmodelled

definition json_loads :: "string \<Rightarrow> loads_result" where
  "json_loads s =
     (case scan_value (skip_ws s) of
        Got v r \<Rightarrow> if skip_ws r = [] then Value v else JSONDecodeError
      | Bad \<Rightarrow> JSONDecodeError
      | Beyond \<Rightarrow> Unmodelled)"

subsection \<open>json.dumps with indent=2\<close>

definition hex_digit :: "nat \<Rightarrow> char" where
  "hex_digit n = (if n < 10 then char_of (48 + n) else char_of (87 + n))"

text \<open>
  \<open>ensure_ascii\<close> is on: every character outside U+0020 .. U+007E, the quote and the
  backslash are escaped.
\<close>

definition escape_char :: "char \<Rightarrow> string" where
  "escape_char c =
     (let n = (of_char c :: nat) in
      if c = CHR 0x22 then [CHR 0x5C, CHR 0x22]
      else if c = CHR 0x5C then [CHR 0x5C, CHR 0x5C]
      else if c = CHR 0x0A then [CHR 0x5C, CHR ''n'']
      else if c = CHR 0x0D then [CHR 0x5C, CHR ''r'']
      else if c = CHR 0x09 then [CHR 0x5C, CHR ''t'']
      else if c = CHR 0x08 then [CHR 0x5C, CHR ''b'']
      else if c = CHR 0x0C then [CHR 0x5C, CHR ''f'']
      else if 32 \<le> n \<and> n \<le> 126 then [c]
      else [CHR 0x5C, CHR ''u'', CHR ''0'', CHR ''0'', hex_digit (n div 16), hex_digit (n mod 16)])"

definition encode_basestring_ascii :: "string \<Rightarrow> string" where
  "encode_basestring_ascii s = CHR 0x22 # concat (map escape_char s) @ [CHR 0x22]"

fun show_nat :: "nat \<Rightarrow> string" where
  "show_nat n = (if n < 10 then [char_of (48 + n)] else show_nat (n div 10) @ [char_of (48 + n mod 10)])"

declare show_nat.simps [simp del]

definition show_int :: "int \<Rightarrow> string" where
  "show_int i = (if i < 0 then CHR ''-'' # show_nat (nat (- i)) else show_nat (nat i))"

definition newline_indent :: "nat \<Rightarrow> string" where
  "newline_indent level = CHR 0x0A # replicate (2 * level) CHR '' ''"

fun dumps_at :: "nat \<Rightarrow> pyval \<Rightarrow> string" where
  "dumps_at level PNone = ''null''"
| "dumps_at level (PBool b) = (if b then ''true'' else ''false'')"
| "dumps_at level (PInt i) = show_int i"
| "dumps_at level (PStr s) = encode_basestring_ascii s"
| "dumps_at level (PList xs) =
     (if xs = [] then ''[]''
      else ''['' @ newline_indent (level + 1)
           @ py_join ('','' @ newline_indent (level + 1)) (map (dumps_at (level + 1)) xs)
           @ newline_indent level @ '']'')"
| "dumps_at level (PTuple xs) =
     (if xs = [] then ''[]''
      else ''['' @ newline_indent (level + 1)
           @ py_join ('','' @ newline_indent (level + 1)) (map (dumps_at (level + 1)) xs)
           @ newline_indent level @ '']'')"
| "dumps_at level (PDict kvs) =
     (if kvs = [] then ''{}''
      else ''{'' @ newline_indent (level + 1)
           @ py_join ('','' @ newline_indent (level + 1))
               (map (\<lambda>kv. encode_basestring_ascii (fst kv) @ '': '' @ dumps_at (level + 1) (snd kv)) kvs)
           @ newline_indent level @ ''}'')"

definition json_dumps :: "pyval \<Rightarrow> string" where
  "json_dumps v = dumps_at 0 v"

text \<open>
  The values that JSON has a form of its own for: no tuple anywhere, and in every
  dictionary each key once (as in every Python dictionary).
\<close>

fun json_native :: "pyval \<Rightarrow> bool" where
  "json_native PNone = True"
| "json_native (PBool b) = True"
| "json_native (PInt i) = True"
| "json_native (PStr s) = True"
| "json_native (PList xs) = (\<forall>x \<in> set xs. json_native x)"
| "json_native (PTuple xs) = False"
| "json_native (PDict kvs) = (distinct (map fst kvs) \<and> (\<forall>kv \<in> set kvs. json_native (snd kv)))"

text \<open>What follows a value in the output of \<open>json.dumps\<close>: the end, a comma or a new line.\<close>

definition follows_value :: "string \<Rightarrow> bool" where
  "follows_value rest = (rest = [] \<or> hd rest = CHR '','' \<or> hd rest = CHR 0x0A)"

text \<open>One \<open>key: value\<close> member of an object, as \<open>dumps_at\<close> writes it.\<close>

definition member_text :: "nat \<Rightarrow> string \<times> pyval \<Rightarrow> string" where
  "member_text m kv = encode_basestring_ascii (fst kv) @ '': '' @ dumps_at m (snd kv)"

section \<open>bootstrap/utils/state\_utils.py\<close>

text \<open>
  The file system as far as \<open>STATE_PATH\<close> goes: whether its parent directory exists,
  whether that directory may be created and the file written, and the file itself.
  \<open>Unreadable\<close> is a file that exists and whose \<open>read_text()\<close> raises.
\<close>

datatype file_node = Missing | Unreadable | Text string

record fs =
  parent_dir :: bool
  may_mkdir :: bool
  may_write :: bool
  state_file :: file_node

definition load_state :: "fs \<Rightarrow> pyval option" where
  \<comment> \<open>\<open>None\<close> only where the file's text leads beyond the modelled values; the function
      itself catches every exception.\<close>
  "load_state f =
     (case state_file f of
        Missing \<Rightarrow> Some (PDict [])
      | Unreadable \<Rightarrow> Some (PDict [])
      | Text t \<Rightarrow>
          (case json_loads t of
             Value v \<Rightarrow> Some v
           | JSONDecodeError \<Rightarrow> Some (PDict [])
           | Unmodelled \<Rightarrow> None))"

definition save_state :: "pyval \<Rightarrow> fs \<Rightarrow> (py_error + unit) \<times> fs" where
  \<comment> \<open>\<open>mkdir(parents=True, exist_ok=True)\<close>, then \<open>write_text(json.dumps(state, indent=2))\<close>.\<close>
  "save_state state f =
     (if \<not> parent_dir f \<and> \<not> may_mkdir f then (Inl OSError, f)
      else
        (let f1 = f\<lparr>parent_dir := True\<rparr>;
             txt = json_dumps state
         in if may_write f1 then (Inr (), f1\<lparr>state_file := Text txt\<rparr>)
            else (Inl OSError, f1)))"

section \<open>bootstrap/utils/api\_utils.py\<close>

text \<open>
  The remote service is a parameter: for the URL, the query parameters and the
  timeout it either makes the request raise (with the text of the exception) or
  answers with a status and what \<open>r.json()\<close> gives, the text of its exception or the
  decoded body.
\<close>

datatype http_outcome = Raised string | Response int "string + pyval"

type_synonym http = "string \<Rightarrow> (string \<times> string) list \<Rightarrow> nat \<Rightarrow> http_outcome"

definition API_URL :: string where
  "API_URL = ''https://api.example.com/devices''"

fun type_name :: "pyval \<Rightarrow> string" where
  "type_name PNone = ''NoneType''"
| "type_name (PBool b) = ''bool''"
| "type_name (PInt i) = ''int''"
| "type_name (PStr s) = ''str''"
| "type_name (PList xs) = ''list''"
| "type_name (PTuple xs) = ''tuple''"
| "type_name (PDict kvs) = ''dict''"

definition no_attribute_get :: "pyval \<Rightarrow> string" where
  \<comment> \<open>The text of the \<open>AttributeError\<close> of \<open>data.get\<close> on a value that is no dictionary.\<close>
  "no_attribute_get v =
     [CHR 0x27] @ type_name v @ [CHR 0x27] @ '' object has no attribute ''
     @ [CHR 0x27] @ ''get'' @ [CHR 0x27]"

definition check_key_status :: "http \<Rightarrow> string \<Rightarrow> bool \<times> string" where
  "check_key_status h api_key =
     (case h (API_URL @ ''/validate'') [(''key'', api_key)] 5 of
        Raised e \<Rightarrow> (False, ''Network error: '' @ e)
      | Response status body \<Rightarrow>
          if status = 200 then
            (case body of
               Inl e \<Rightarrow> (False, ''Network error: '' @ e)
             | Inr (PDict d) \<Rightarrow>
                 if truthy (dict_get d ''active'')
                 then (True, ''API key active '' @ [CHR 0xE2, CHR 0x9C, CHR 0x85])
                 else (False, ''Key found but not activated.'')
             | Inr v \<Rightarrow> (False, ''Network error: '' @ no_attribute_get v))
          else (False, ''Invalid API key.''))"

section \<open>bootstrap/screens/network\_screen.py and bootstrap/wizard.py\<close>

definition handle_done :: "world \<Rightarrow> (string \<Rightarrow> bool option) \<Rightarrow> trace \<Rightarrow> (py_error + pydict) \<times> trace" where
  \<comment> \<open>\<open>NetworkScreen.handle_done\<close>: the dictionary that it passes to \<open>on_done\<close>.\<close>
  "handle_done w is_private tr =
     (case get_connectivity w tr of
        (Inl e, tr1) \<Rightarrow> (Inl e, tr1)
      | (Inr connected, tr1) \<Rightarrow>
          (case get_ip_address w is_private tr1 of
             (Inl e, tr2) \<Rightarrow> (Inl e, tr2)
           | (Inr ip, tr2) \<Rightarrow>
               (Inr [(''connected'', PBool connected),
                     (''ip'', case ip of None \<Rightarrow> PNone | Some a \<Rightarrow> PStr a)], tr2)))"

text \<open>
  The wizard is its stack of screens, the last one on top. A screen's callback is not
  part of the value: the network screen reports to \<open>after_network\<close>, the activation
  screen to \<open>after_activation\<close>.
\<close>

datatype screen = NetworkScreen | ActivationScreen | SummaryScreen pydict

definition push_screen :: "screen \<Rightarrow> screen list \<Rightarrow> screen list" where
  "push_screen s stack = stack @ [s]"

definition on_mount :: "screen list \<Rightarrow> screen list" where
  "on_mount stack = push_screen NetworkScreen stack"

definition after_network :: "pydict \<Rightarrow> screen list \<Rightarrow> screen list" where
  "after_network network_result stack =
     (if \<not> truthy (dict_get network_result ''connected'')
      then push_screen (SummaryScreen [(''error'', PStr ''Network not connected'')]) stack
      else push_screen ActivationScreen stack)"

definition after_activation :: "pydict \<Rightarrow> screen list \<Rightarrow> screen list" where
  "after_activation activation_result stack = push_screen (SummaryScreen activation_result) stack"

section \<open>archive/network-old.py\<close>

record WifiNetwork =
  ssid :: string
  signal :: int
  security :: string

fun universal_newlines :: "string \<Rightarrow> string" where
  \<comment> \<open>What \<open>text=True\<close> does to the output read from a pipe.\<close>
  "universal_newlines [] = []"
| "universal_newlines [c] = (if c = CHR 0x0D then [CHR 0x0A] else [c])"
| "universal_newlines (c # d # cs) =
     (if c = CHR 0x0D \<and> d = CHR 0x0A then CHR 0x0A # universal_newlines cs
      else if c = CHR 0x0D then CHR 0x0A # universal_newlines (d # cs)
      else c # universal_newlines (d # cs))"

definition run :: "world \<Rightarrow> string list \<Rightarrow> nat \<Rightarrow> trace \<Rightarrow> (py_error + cmd_result) \<times> trace" where
  \<comment> \<open>\<open>subprocess.run\<close> kills the child itself when the timeout expires, before it
      raises \<open>TimeoutExpired\<close>.\<close>
  "run w cmd timeout tr =
     (let p = w tr cmd in
      if \<not> starts p then (Inl OSError, tr @ [Exec cmd timeout])
      else if \<not> finishes_within p timeout
        then (Inr (1, [], ''Command timed out''), tr @ [Exec cmd timeout, Kill cmd])
      else (case (stdout p, stderr p) of
              (Some out, Some err) \<Rightarrow>
                (Inr (returncode p, py_strip (universal_newlines out), py_strip (universal_newlines err)),
                 tr @ [Exec cmd timeout])
            | _ \<Rightarrow> (Inl UnicodeDecodeError, tr @ [Exec cmd timeout])))"

fun scan_wifi_loop :: "WifiNetwork list \<Rightarrow> string set \<Rightarrow> string list \<Rightarrow> WifiNetwork list" where
  \<comment> \<open>The \<open>for line in out.splitlines()\<close> loop of \<open>scan_wifi\<close>, \<open>networks\<close> and \<open>seen\<close> first.
      The debugging line written to the error output is left out.\<close>
  "scan_wifi_loop nets seen [] = nets"
| "scan_wifi_loop nets seen (line # rest) =
     (let parts = py_split_on CHR '':'' line in
      if length parts \<ge> 3 then
        (let ssid0 = py_strip (py_join '':'' (take (length parts - 2) parts));
             sig = py_strip (parts ! (length parts - 2));
             sec = py_or (py_strip (last parts)) ''--'';
             name = (if ssid0 = [] then ''(hidden)'' else ssid0)
         in if name \<notin> seen then
              scan_wifi_loop
                (nets @ [\<lparr>ssid = name,
                          signal = (case py_int sig of Some n \<Rightarrow> n | None \<Rightarrow> 0),
                          security = sec\<rparr>])
                (insert name seen) rest
            else scan_wifi_loop nets seen rest)
      else scan_wifi_loop nets seen rest)"

definition sort_networks :: "WifiNetwork list \<Rightarrow> WifiNetwork list" where
  \<comment> \<open>\<open>networks.sort(key=lambda n: (-n.signal, n.ssid.lower()))\<close>: a stable sort.\<close>
  "sort_networks nets = sort_key (\<lambda>n. (- signal n, py_lower (ssid n))) nets"

definition scan_wifi :: "world \<Rightarrow> trace \<Rightarrow> (py_error + WifiNetwork list) \<times> trace" where
  "scan_wifi w tr =
     (case run w [''nmcli'', ''-t'', ''-f'', ''SSID,SIGNAL,SECURITY'', ''device'', ''wifi'', ''list''] 8 tr of
        (Inl e, tr') \<Rightarrow> (Inl e, tr')
      | (Inr (rc, out, err), tr') \<Rightarrow>
          if rc \<noteq> 0 then (Inr [], tr')
          else (Inr (sort_networks (scan_wifi_loop [] {} (py_splitlines out))), tr'))"

definition password_args :: "string option \<Rightarrow> string list" where
  \<comment> \<open>\<open>if password: cmd += ["password", password]\<close>\<close>
  "password_args password =
     (case password of
        None \<Rightarrow> []
      | Some p \<Rightarrow> if p \<noteq> [] then [''password'', p] else [])"

definition connect_wifi :: "world \<Rightarrow> string \<Rightarrow> string option \<Rightarrow> trace \<Rightarrow> (py_error + bool \<times> string) \<times> trace" where
  "connect_wifi w name password tr =
     (if name = ''(hidden)'' then
        (Inr (False, ''Cannot directly connect to '' @ [CHR 0x27] @ ''(hidden)'' @ [CHR 0x27]
                     @ [CHR 0xE2, CHR 0x80, CHR 0x94] @ ''please use '' @ [CHR 0x27]
                     @ ''Hidden SSID'' @ [CHR 0x27] @ '' flow.''), tr)
      else
        (case run w ([''nmcli'', ''device'', ''wifi'', ''connect'', name] @ password_args password) 25 tr of
           (Inl e, tr') \<Rightarrow> (Inl e, tr')
         | (Inr (rc, out, err), tr') \<Rightarrow>
             if rc = 0 then (Inr (True, py_or out ''Connected.''), tr')
             else (Inr (False, py_or err (py_or out ''Failed to connect.'')), tr')))"

definition hidden_cmd :: "string \<Rightarrow> string option \<Rightarrow> string list" where
  "hidden_cmd name password =
     [''nmcli'', ''device'', ''wifi'', ''connect'', name, ''hidden'', ''yes''] @ password_args password"

definition add_cmd :: "string \<Rightarrow> string option \<Rightarrow> string list" where
  \<comment> \<open>\<open>if password:\<close> chooses between the profile with a key and the open one.\<close>
  "add_cmd name password =
     (case password_args password of
        [] \<Rightarrow>
          [''nmcli'', ''connection'', ''add'', ''type'', ''wifi'', ''con-name'', name, ''ifname'', ''*'',
           ''ssid'', name]
      | _ \<Rightarrow>
          [''nmcli'', ''connection'', ''add'', ''type'', ''wifi'', ''con-name'', name, ''ifname'', ''*'',
           ''ssid'', name, ''wifi-sec.key-mgmt'', ''wpa-psk'', ''wifi-sec.psk'',
           (case password of Some p \<Rightarrow> p | None \<Rightarrow> [])])"

definition up_cmd :: "string \<Rightarrow> string list" where
  "up_cmd name = [''nmcli'', ''connection'', ''up'', name]"

definition connect_hidden_wifi :: "world \<Rightarrow> string \<Rightarrow> string option \<Rightarrow> trace \<Rightarrow> (py_error + bool \<times> string) \<times> trace" where
  "connect_hidden_wifi w name password tr =
     (if name = [] then (Inr (False, ''SSID cannot be empty.''), tr)
      else
        (case run w (hidden_cmd name password) 25 tr of
           (Inl e, tr1) \<Rightarrow> (Inl e, tr1)
         | (Inr (rc, out, err), tr1) \<Rightarrow>
             if rc = 0 then (Inr (True, py_or out ''Connected.''), tr1)
             else
               (case run w (add_cmd name password) 15 tr1 of
                  (Inl e, tr2) \<Rightarrow> (Inl e, tr2)
                | (Inr (rc2, out2, err2), tr2) \<Rightarrow>
                    if rc2 \<noteq> 0 \<and> \<not> py_in ''exists'' (py_lower (out2 @ err2))
                    then (Inr (False, py_or err2 (py_or out2 ''Failed to create connection profile.'')), tr2)
                    else
                      (case run w (up_cmd name) 20 tr2 of
                         (Inl e, tr3) \<Rightarrow> (Inl e, tr3)
                       | (Inr (rc3, out3, err3), tr3) \<Rightarrow>
                           if rc3 = 0 then (Inr (True, py_or out3 ''Connected.''), tr3)
                           else (Inr (False, py_or err3 (py_or out3 ''Failed to bring up connection.'')), tr3)))))"

fun ip_lines :: "string list \<Rightarrow> string list \<Rightarrow> string list" where
  \<comment> \<open>The loop over the lines of \<open>ip -4 -o addr show\<close> in \<open>get_ip_addresses\<close>, \<open>ips\<close> first.\<close>
  "ip_lines ips [] = ips"
| "ip_lines ips (line # rest) =
     (let parts = py_split line in
      if length parts \<ge> 4 then
        (case py_split_on CHR ''/'' (parts ! 3) of
           [] \<Rightarrow> ip_lines ips rest
         | ip # _ \<Rightarrow> ip_lines (ips @ [ip]) rest)
      else ip_lines ips rest)"

definition get_ip_addresses :: "world \<Rightarrow> trace \<Rightarrow> (py_error + string list) \<times> trace" where
  "get_ip_addresses w tr =
     (case run w [''hostname'', ''-I''] 8 tr of
        (Inl e, tr1) \<Rightarrow> (Inl e, tr1)
      | (Inr (rc, out, err), tr1) \<Rightarrow>
          if rc = 0 \<and> out \<noteq> [] then
            (Inr (map py_strip (filter (\<lambda>ip. py_strip ip \<noteq> []) (py_split (py_strip out)))), tr1)
          else
            (case run w [''ip'', ''-4'', ''-o'', ''addr'', ''show''] 8 tr1 of
               (Inl e, tr2) \<Rightarrow> (Inl e, tr2)
             | (Inr (rc2, out2, err2), tr2) \<Rightarrow>
                 (Inr (if rc2 = 0 then ip_lines [] (py_splitlines out2) else []), tr2)))"

text \<open>The fields of \<open>NetworkWizard\<close> and of its widgets that \<open>attempt_connect\<close> touches.\<close>

record ui =
  selected_ssid :: "string option"
  networks :: "WifiNetwork list"
  status_text :: string
  connected_ips :: "string list"
  password_value :: string
  password_masked :: bool
  password_placeholder :: string
  status_label :: string
  ip_label :: string
  widgets_enabled :: bool

definition needs_pwd :: "WifiNetwork list \<Rightarrow> string \<Rightarrow> bool" where
  \<comment> \<open>The loop that looks the selected SSID up in the scan result.\<close>
  "needs_pwd nets name =
     (case find (\<lambda>n. ssid n = name) nets of
        None \<Rightarrow> True
      | Some n \<Rightarrow> security n \<notin> set [''--'', ''NONE'', ''''])"

definition connect_selected :: "world \<Rightarrow> WifiNetwork list \<Rightarrow> string \<Rightarrow> string option \<Rightarrow> trace \<Rightarrow> (py_error + bool \<times> string) \<times> trace" where
  \<comment> \<open>The first statement of the \<open>try\<close> block of \<open>attempt_connect\<close>: the choice between
      the two ways to connect, giving \<open>ok, msg\<close>.\<close>
  "connect_selected w nets name pwd0 tr =
     (if name = ''(hidden)'' then
        (Inr (False, ''Please use '' @ [CHR 0x27] @ ''Hidden SSID'' @ [CHR 0x27]
                     @ '' to enter the network name.''), tr)
      else
        (let pwd = (if \<not> needs_pwd nets name then None else pwd0) in
         if name \<noteq> [] \<and> name \<notin> ssid ` set nets
         then connect_hidden_wifi w name pwd tr
         else connect_wifi w name pwd tr))"

definition attempt_connect :: "world \<Rightarrow> ui \<Rightarrow> trace \<Rightarrow> py_error option \<times> ui \<times> trace" where
  \<comment> \<open>The exception that leaves the method, if any, the fields afterwards and the
      trace. \<open>time.sleep(2)\<close> is left out.\<close>
  "attempt_connect w u tr =
     (case selected_ssid u of
        None \<Rightarrow>
          (let t = ''Select a network first (or choose Hidden SSID).''
           in (None, u\<lparr>status_text := t, status_label := t\<rparr>, tr))
      | Some name \<Rightarrow>
          if name = ''(hidden-enter-next)'' then
            (let ssid_entered = py_strip (password_value u) in
             if ssid_entered = [] then
               (let t = ''Hidden SSID cannot be empty.''
                in (None, u\<lparr>status_text := t, status_label := t\<rparr>, tr))
             else
               (let t = ''Hidden SSID '' @ [CHR 0x27] @ ssid_entered @ [CHR 0x27]
                        @ '' captured. Enter password (if any), then press Connect again.''
                in (None,
                    u\<lparr>selected_ssid := Some ssid_entered,
                      password_value := [],
                      password_masked := True,
                      password_placeholder :=
                        ''Password for hidden SSID (leave empty if open), then press Connect again'',
                      status_text := t,
                      status_label := t\<rparr>, tr)))
          else
            (let pwd = (if password_value u \<noteq> [] then Some (password_value u) else None);
                 t0 = ''Connecting to '' @ [CHR 0x27] @ name @ [CHR 0x27] @ ''...'';
                 u0 = u\<lparr>status_text := t0, status_label := t0, widgets_enabled := False\<rparr>
             in case connect_selected w (networks u0) name pwd tr of
                  (Inl e, tr1) \<Rightarrow>
                    (Some e, u0\<lparr>status_label := status_text u0, widgets_enabled := True\<rparr>, tr1)
                | (Inr (ok, msg), tr1) \<Rightarrow>
                    if ok then
                      (case get_ip_addresses w tr1 of
                         (Inl e, tr2) \<Rightarrow>
                           (Some e, u0\<lparr>status_label := status_text u0, widgets_enabled := True\<rparr>, tr2)
                       | (Inr ips, tr2) \<Rightarrow>
                           (let t1 = ''Connected to '' @ [CHR 0x27] @ name @ [CHR 0x27] @ ''.''
                            in (None,
                                u0\<lparr>connected_ips := ips,
                                   status_text := t1,
                                   ip_label := (if ips \<noteq> [] then ''IP: '' @ py_join '', '' ips
                                                else ''IP: (pending DHCP)''),
                                   status_label := t1,
                                   widgets_enabled := True\<rparr>, tr2)))
                    else
                      (let t1 = ''Connection failed: '' @ msg
                       in (None, u0\<lparr>status_text := t1, status_label := t1, widgets_enabled := True\<rparr>, tr1))))"

definition commands :: "trace \<Rightarrow> string list list" where
  \<comment> \<open>The commands of a trace, in the order in which they were started.\<close>
  "commands tr = concat (map (\<lambda>e. case e of Exec c t \<Rightarrow> [c] | Kill c \<Rightarrow> []) tr)"

section \<open>The notions of the scan claims\<close>

text \<open>
  What the scanners take from one line, written out so that the claims about lines
  can be stated. A line counts for \<open>scan_wifi\<close> when it has at least three fields
  (\<open>len(parts) >= 3\<close>); \<open>wifi_record\<close> is the record that the loop builds from it.
\<close>

definition wifi_line_ok :: "string \<Rightarrow> bool" where
  "wifi_line_ok line = (length (py_split_on CHR '':'' line) \<ge> 3)"

definition wifi_record :: "string \<Rightarrow> WifiNetwork" where
  "wifi_record line =
     (let parts = py_split_on CHR '':'' line;
          ssid0 = py_strip (py_join '':'' (take (length parts - 2) parts));
          sig = py_strip (parts ! (length parts - 2));
          sec = py_or (py_strip (last parts)) ''--''
      in \<lparr>ssid = (if ssid0 = [] then ''(hidden)'' else ssid0),
          signal = (case py_int sig of Some n \<Rightarrow> n | None \<Rightarrow> 0),
          security = sec\<rparr>)"

fun first_by_ssid :: "string set \<Rightarrow> WifiNetwork list \<Rightarrow> WifiNetwork list" where
  \<comment> \<open>The records whose SSID is new, given the SSIDs seen before.\<close>
  "first_by_ssid seen [] = []"
| "first_by_ssid seen (n # ns) =
     (if ssid n \<in> seen then first_by_ssid seen ns
      else n # first_by_ssid (insert (ssid n) seen) ns)"

text \<open>
  For \<open>scan_networks\<close> the two fields of a line are the first two of
  \<open>line.split(":") + ["0"]\<close>.
\<close>

definition ssid_field :: "string \<Rightarrow> string" where
  "ssid_field line = hd (py_split_on CHR '':'' line @ [''0''])"

definition signal_field :: "string \<Rightarrow> string" where
  "signal_field line = hd (tl (py_split_on CHR '':'' line @ [''0'']))"

definition net_line_ok :: "string \<Rightarrow> bool" where
  \<comment> \<open>A line that gives a record: its SSID is not empty and its signal is an integer.\<close>
  "net_line_ok line = (ssid_field line \<noteq> [] \<and> py_int (signal_field line) \<noteq> None)"

definition net_of_line :: "string \<Rightarrow> pydict" where
  "net_of_line line =
     net_entry (ssid_field line) (case py_int (signal_field line) of Some n \<Rightarrow> n | None \<Rightarrow> 0)"

section \<open>Worlds for the examples\<close>

definition answering :: "int \<Rightarrow> string \<Rightarrow> string \<Rightarrow> world" where
  \<comment> \<open>Every command ends at once with this return code and these outputs.\<close>
  "answering rc out err =
     (\<lambda>tr cmd. \<lparr>starts = True, finishes_within = (\<lambda>t. True), returncode = rc,
                  stdout = Some out, stderr = Some err\<rparr>)"

definition hanging :: world where
  \<comment> \<open>Every command starts and never ends.\<close>
  "hanging =
     (\<lambda>tr cmd. \<lparr>starts = True, finishes_within = (\<lambda>t. False), returncode = 0,
                  stdout = Some [], stderr = Some []\<rparr>)"

definition replying :: "http_outcome \<Rightarrow> http" where
  \<comment> \<open>The service gives this outcome to every request.\<close>
  "replying r = (\<lambda>url params timeout. r)"

definition example_fs :: "file_node \<Rightarrow> fs" where
  \<comment> \<open>The directory exists and everything is allowed; the state file is as given.\<close>
  "example_fs node = \<lparr>parent_dir = True, may_mkdir = True, may_write = True, state_file = node\<rparr>"

definition hidden_fails :: world where
  \<comment> \<open>Every command ends at once; the ones with the word \<open>hidden\<close> fail, the others
      succeed.\<close>
  "hidden_fails =
     (\<lambda>tr cmd. \<lparr>starts = True, finishes_within = (\<lambda>t. True),
                  returncode = (if ''hidden'' \<in> set cmd then 10 else 0),
                  stdout = Some (if ''hidden'' \<in> set cmd then [] else ''ok''),
                  stderr = Some (if ''hidden'' \<in> set cmd then ''no such network'' else [])\<rparr>)"

definition example_ui :: "string \<Rightarrow> WifiNetwork list \<Rightarrow> string \<Rightarrow> ui" where
  \<comment> \<open>The wizard with this SSID selected, this scan result and this text in the
      password field.\<close>
  "example_ui name nets pw =
     \<lparr>selected_ssid = Some name, networks = nets, status_text = [], connected_ips = [],
      password_value = pw, password_masked = True, password_placeholder = [],
      status_label = [], ip_label = [], widgets_enabled = True\<rparr>"

definition example_is_private :: "string \<Rightarrow> bool option" where
  \<comment> \<open>What the \<open>ipaddress\<close> module answers for the addresses of the examples.\<close>
  "example_is_private ip =
     (if ip = ''192.168.1.5'' \<or> ip = ''fd00::1'' then Some True
      else if ip = ''8.8.8.8'' then Some False
      else None)"

section \<open>The wizard flow\<close>

text \<open>
  C1. Activation gating: after the network step the wizard pushes the activation
  screen if and only if the \<open>connected\<close> field of the step's result is true in
  Python's sense, and otherwise pushes the summary screen with the error result. For
  a result that the network screen produces (\<open>handle_done\<close>) the field is a boolean, and
  the activation screen is reached if and only if it is \<open>True\<close>.
\<close>

theorem after_network_gating:
  "(after_network r stack = push_screen ActivationScreen stack \<longleftrightarrow> truthy (dict_get r ''connected''))
   \<and> (\<not> truthy (dict_get r ''connected'') \<longrightarrow>
        after_network r stack =
          push_screen (SummaryScreen [(''error'', PStr ''Network not connected'')]) stack)
   \<and> (handle_done w is_private tr = (Inr r', tr') \<longrightarrow>
        (after_network r' stack = push_screen ActivationScreen stack
           \<longleftrightarrow> dict_get r' ''connected'' = PBool True))"
proof -
  have gate: "after_network d stack = push_screen ActivationScreen stack \<longleftrightarrow> truthy (dict_get d ''connected'')"
    for d
    by (simp add: after_network_def push_screen_def)
  have "dict_get r' ''connected'' = PBool True \<longleftrightarrow> truthy (dict_get r' ''connected'')"
    if "handle_done w is_private tr = (Inr r', tr')"
    using that
    by (auto simp: handle_done_def dict_get_def split: prod.splits sum.splits)
  then show ?thesis
    using gate by (simp add: after_network_def)
qed

theorem after_network_gating_witness:
  "handle_done (answering 0 ''192.168.1.5'' ''full'') example_is_private []
     = (Inr [(''connected'', PBool True), (''ip'', PStr ''192.168.1.5'')],
        [Exec [''nmcli'', ''-t'', ''-f'', ''CONNECTIVITY'', ''general''] 10, Exec [''hostname'', ''-I''] 10])
   \<and> after_network [(''connected'', PBool True), (''ip'', PStr ''192.168.1.5'')] [NetworkScreen]
       = [NetworkScreen, ActivationScreen]
   \<and> after_network [(''connected'', PBool False), (''ip'', PNone)] [NetworkScreen]
       = [NetworkScreen, SummaryScreen [(''error'', PStr ''Network not connected'')]]"
proof -
  have h: "handle_done (answering 0 ''192.168.1.5'' ''full'') example_is_private []
     = (Inr [(''connected'', PBool True), (''ip'', PStr ''192.168.1.5'')],
        [Exec [''nmcli'', ''-t'', ''-f'', ''CONNECTIVITY'', ''general''] 10, Exec [''hostname'', ''-I''] 10])"
    by code_simp
  have c: "dict_get [(''connected'', PBool True), (''ip'', PStr ''192.168.1.5'')] ''connected'' = PBool True"
    by (simp add: dict_get_def)
  have n: "\<not> truthy (dict_get [(''connected'', PBool False), (''ip'', PNone)] ''connected'')"
    by (simp add: dict_get_def)
  from after_network_gating [of "[(''connected'', PBool True), (''ip'', PStr ''192.168.1.5'')]" "[NetworkScreen]"
      "answering 0 ''192.168.1.5'' ''full''" example_is_private "[]" _ _] h c
  have a: "after_network [(''connected'', PBool True), (''ip'', PStr ''192.168.1.5'')] [NetworkScreen]
       = push_screen ActivationScreen [NetworkScreen]"
    by blast
  from after_network_gating [of "[(''connected'', PBool False), (''ip'', PNone)]" "[NetworkScreen]"] n
  have b: "after_network [(''connected'', PBool False), (''ip'', PNone)] [NetworkScreen]
       = push_screen (SummaryScreen [(''error'', PStr ''Network not connected'')]) [NetworkScreen]"
    by blast
  show ?thesis using h a b by (simp add: push_screen_def)
qed


section \<open>The command runners\<close>

text \<open>
  C4. Timeout handling: a command that starts and has not ended when its timeout is
  over is killed, and both runners return the failure tuple (return code 1, empty
  output, a timeout message) as a value; no exception leaves them.
\<close>

theorem run_timeout:
  assumes "starts (w tr cmd)" and "\<not> finishes_within (w tr cmd) timeout"
  shows "underscore_run w cmd timeout tr = (Inr (1, [], ''Timeout''), tr @ [Exec cmd timeout, Kill cmd])
       \<and> run w cmd timeout tr = (Inr (1, [], ''Command timed out''), tr @ [Exec cmd timeout, Kill cmd])"
  using assms by (simp add: underscore_run_def run_def Let_def)

theorem run_timeout_witness:
  "underscore_run hanging [''nmcli'', ''general''] 10 []
     = (Inr (1, [], ''Timeout''), [Exec [''nmcli'', ''general''] 10, Kill [''nmcli'', ''general'']])
   \<and> run hanging [''nmcli'', ''general''] 8 []
     = (Inr (1, [], ''Command timed out''), [Exec [''nmcli'', ''general''] 8, Kill [''nmcli'', ''general'']])"
proof -
  have s: "starts (hanging [] [''nmcli'', ''general''])"
    and f10: "\<not> finishes_within (hanging [] [''nmcli'', ''general'']) 10"
    and f8: "\<not> finishes_within (hanging [] [''nmcli'', ''general'']) 8"
    by (simp_all add: hanging_def)
  show ?thesis
    using run_timeout [of hanging "[]" "[''nmcli'', ''general'']" 10, OF s f10]
      run_timeout [of hanging "[]" "[''nmcli'', ''general'']" 8, OF s f8]
    by simp
qed

section \<open>Scanning with scan\_networks\<close>

lemma py_split_on_nonempty: "py_split_on c s \<noteq> []"
  by (induction s) (auto split: list.splits)

lemma scan_loop_ssids:
  "scan_loop acc ls = Inr nets \<Longrightarrow>
     map (\<lambda>n. dict_get n ''ssid'') nets
       = map (\<lambda>n. dict_get n ''ssid'') acc
         @ map PStr (filter (\<lambda>s. s \<noteq> []) (map (\<lambda>l. hd (py_split_on CHR '':'' l)) ls))"
proof (induction ls arbitrary: acc)
  case Nil
  then show ?case by simp
next
  case (Cons l ls)
  obtain f fs where sp: "py_split_on CHR '':'' l = f # fs"
    using py_split_on_nonempty [of "CHR '':''" l] by (cases "py_split_on CHR '':'' l") auto
  show ?case
  proof (cases "f = []")
    case True
    with Cons.prems sp have "scan_loop acc ls = Inr nets"
      by (cases fs) auto
    from Cons.IH [OF this] True sp show ?thesis by simp
  next
    case False
    with Cons.prems sp obtain n where "scan_loop (acc @ [net_entry f n]) ls = Inr nets"
      by (cases fs) (auto split: option.splits)
    from Cons.IH [OF this] False sp show ?thesis
      by (simp add: net_entry_def dict_get_def)
  qed
qed

text \<open>
  C9. Every record that \<open>scan_networks\<close> returns has a non-empty string under \<open>ssid\<close>:
  the SSIDs returned are the first fields of the lines of the output, in order, without
  the empty ones.
\<close>

theorem scan_networks_ssid_nonempty:
  assumes "scan_networks w tr = (Inr nets, tr')"
  shows "(\<forall>n \<in> set nets. \<exists>s. dict_get n ''ssid'' = PStr s \<and> s \<noteq> [])
       \<and> (\<exists>rc out err.
            underscore_run w [''nmcli'', ''-t'', ''-f'', ''SSID,SIGNAL'', ''device'', ''wifi'', ''list''] 10 tr
              = (Inr (rc, out, err), tr')
            \<and> map (\<lambda>n. dict_get n ''ssid'') nets
                = map PStr (filter (\<lambda>s. s \<noteq> [])
                              (map (\<lambda>l. hd (py_split_on CHR '':'' l)) (py_splitlines out))))"
proof -
  from assms obtain rc out err where
    r: "underscore_run w [''nmcli'', ''-t'', ''-f'', ''SSID,SIGNAL'', ''device'', ''wifi'', ''list''] 10 tr
          = (Inr (rc, out, err), tr')"
    and l: "scan_loop [] (py_splitlines out) = Inr nets"
    by (auto simp: scan_networks_def split: prod.splits sum.splits)
  from scan_loop_ssids [OF l]
  have m: "map (\<lambda>n. dict_get n ''ssid'') nets
             = map PStr (filter (\<lambda>s. s \<noteq> []) (map (\<lambda>l. hd (py_split_on CHR '':'' l)) (py_splitlines out)))"
    by simp
  have "\<exists>s. dict_get n ''ssid'' = PStr s \<and> s \<noteq> []" if "n \<in> set nets" for n
  proof -
    from that have "dict_get n ''ssid'' \<in> set (map (\<lambda>n. dict_get n ''ssid'') nets)" by simp
    then show ?thesis unfolding m by auto
  qed
  with r m show ?thesis by blast
qed

theorem scan_networks_ssid_nonempty_witness:
  "scan_networks (answering 0 ''home:70\<newline>:55\<newline>cafe:40'' []) []
     = (Inr [[(''ssid'', PStr ''home''), (''signal'', PInt 70)],
             [(''ssid'', PStr ''cafe''), (''signal'', PInt 40)]],
        [Exec [''nmcli'', ''-t'', ''-f'', ''SSID,SIGNAL'', ''device'', ''wifi'', ''list''] 10])
   \<and> map (\<lambda>n. dict_get n ''ssid'')
         [[(''ssid'', PStr ''home''), (''signal'', PInt 70)],
          [(''ssid'', PStr ''cafe''), (''signal'', PInt 40)]]
       = map PStr (filter (\<lambda>s. s \<noteq> [])
                     (map (\<lambda>l. hd (py_split_on CHR '':'' l)) (py_splitlines ''home:70\<newline>:55\<newline>cafe:40'')))"
proof -
  have r: "underscore_run (answering 0 ''home:70\<newline>:55\<newline>cafe:40'' [])
             [''nmcli'', ''-t'', ''-f'', ''SSID,SIGNAL'', ''device'', ''wifi'', ''list''] 10 []
           = (Inr (0, ''home:70\<newline>:55\<newline>cafe:40'', []),
              [Exec [''nmcli'', ''-t'', ''-f'', ''SSID,SIGNAL'', ''device'', ''wifi'', ''list''] 10])"
    by code_simp
  have h: "scan_networks (answering 0 ''home:70\<newline>:55\<newline>cafe:40'' []) []
     = (Inr [[(''ssid'', PStr ''home''), (''signal'', PInt 70)],
             [(''ssid'', PStr ''cafe''), (''signal'', PInt 40)]],
        [Exec [''nmcli'', ''-t'', ''-f'', ''SSID,SIGNAL'', ''device'', ''wifi'', ''list''] 10])"
    by code_simp
  from scan_networks_ssid_nonempty [OF h] r h show ?thesis by auto
qed

section \<open>The local address\<close>

lemma py_split_no_empty: "[] \<notin> set (py_split s)"
  by (induction s rule: py_split.induct) (auto split: list.splits)

lemma first_private_find: "first_private p ips = find (\<lambda>i. p i = Some True) ips"
  by (induction ips) (auto split: option.splits bool.splits)

text \<open>
  C8, as stated, fails: with only a public address in the list, \<open>get_ip_address\<close>
  returns that public address, and an IPv6 address that is private is returned before
  a private IPv4 address that follows it.
\<close>

theorem get_ip_address_counterexample:
  "fst (get_ip_address (answering 0 ''8.8.8.8'' []) example_is_private []) = Inr (Some ''8.8.8.8'')
   \<and> example_is_private ''8.8.8.8'' = Some False
   \<and> fst (get_ip_address (answering 0 ''fd00::1 192.168.1.5'' []) example_is_private []) = Inr (Some ''fd00::1'')"
  by code_simp

text \<open>
  C8, amended. Of the entries of the address list that do not start with \<open>127.\<close>,
  \<open>get_ip_address\<close> returns the first one that the \<open>ipaddress\<close> module parses (as IPv4 or
  IPv6) and calls private; when there is none it falls back to the first such entry,
  whatever it is, and returns \<open>None\<close> when there is no entry.
\<close>

theorem get_ip_address_first_private:
  assumes "underscore_run w [''hostname'', ''-I''] 10 tr = (Inr (rc, out, err), tr')"
  shows "get_ip_address w is_private tr =
           (Inr (let ips = filter (\<lambda>i. \<not> py_startswith i ''127.'') (py_split out)
                 in case find (\<lambda>i. is_private i = Some True) ips of
                      Some ip \<Rightarrow> Some ip
                    | None \<Rightarrow> (case ips of [] \<Rightarrow> None | ip # _ \<Rightarrow> Some ip)), tr')"
proof -
  have eq: "filter (\<lambda>i. i \<noteq> [] \<and> \<not> py_startswith i ''127.'') (py_split out)
          = filter (\<lambda>i. \<not> py_startswith i ''127.'') (py_split out)"
    using py_split_no_empty [of out] by (intro filter_cong) auto
  show ?thesis
    using assms
    by (simp add: get_ip_address_def first_private_find Let_def eq split: option.split list.split)
qed

theorem get_ip_address_first_private_witness:
  "get_ip_address (answering 0 ''127.0.0.1 8.8.8.8 192.168.1.5'' []) example_is_private []
     = (Inr (Some ''192.168.1.5''), [Exec [''hostname'', ''-I''] 10])
   \<and> get_ip_address (answering 0 ''127.0.0.1 8.8.8.8'' []) example_is_private []
     = (Inr (Some ''8.8.8.8''), [Exec [''hostname'', ''-I''] 10])"
proof -
  have r1: "underscore_run (answering 0 ''127.0.0.1 8.8.8.8 192.168.1.5'' []) [''hostname'', ''-I''] 10 []
          = (Inr (0, ''127.0.0.1 8.8.8.8 192.168.1.5'', []), [Exec [''hostname'', ''-I''] 10])"
    by code_simp
  have r2: "underscore_run (answering 0 ''127.0.0.1 8.8.8.8'' []) [''hostname'', ''-I''] 10 []
          = (Inr (0, ''127.0.0.1 8.8.8.8'', []), [Exec [''hostname'', ''-I''] 10])"
    by code_simp
  have e1: "(let ips = filter (\<lambda>i. \<not> py_startswith i ''127.'') (py_split ''127.0.0.1 8.8.8.8 192.168.1.5'')
             in case find (\<lambda>i. example_is_private i = Some True) ips of
                  Some ip \<Rightarrow> Some ip
                | None \<Rightarrow> (case ips of [] \<Rightarrow> None | ip # _ \<Rightarrow> Some ip)) = Some ''192.168.1.5''"
    by code_simp
  have e2: "(let ips = filter (\<lambda>i. \<not> py_startswith i ''127.'') (py_split ''127.0.0.1 8.8.8.8'')
             in case find (\<lambda>i. example_is_private i = Some True) ips of
                  Some ip \<Rightarrow> Some ip
                | None \<Rightarrow> (case ips of [] \<Rightarrow> None | ip # _ \<Rightarrow> Some ip)) = Some ''8.8.8.8''"
    by code_simp
  show ?thesis
    using get_ip_address_first_private [OF r1, of example_is_private]
      get_ip_address_first_private [OF r2, of example_is_private]
    unfolding e1 e2 by simp
qed

section \<open>The key check\<close>

text \<open>
  C6, as stated, fails: a body whose \<open>active\<close> field is the string \<open>no\<close>, which is not
  \<open>true\<close>, is a success.
\<close>

theorem check_key_status_counterexample:
  "fst (check_key_status (replying (Response 200 (Inr (PDict [(''active'', PStr ''no'')])))) ''key-1'')
   \<and> dict_get [(''active'', PStr ''no'')] ''active'' \<noteq> PBool True"
  by code_simp

text \<open>
  C6, amended. \<open>check_key_status\<close> returns success if and only if the request to the
  validation endpoint answers with status 200 and a JSON object whose \<open>active\<close> field is
  true in Python's sense (\<open>true\<close>, a number other than zero, a non-empty string, list or
  object); it always returns a message, and an exception of the request becomes the
  failure message \<open>Network error: ...\<close>.
\<close>

theorem check_key_status_truthy:
  "(fst (check_key_status h k) \<longleftrightarrow>
      (\<exists>d. h (API_URL @ ''/validate'') [(''key'', k)] 5 = Response 200 (Inr (PDict d))
           \<and> truthy (dict_get d ''active'')))
   \<and> snd (check_key_status h k) \<noteq> []
   \<and> (h (API_URL @ ''/validate'') [(''key'', k)] 5 = Raised e \<longrightarrow>
        check_key_status h k = (False, ''Network error: '' @ e))"
proof (cases "h (API_URL @ ''/validate'') [(''key'', k)] 5")
  case (Raised x)
  then show ?thesis by (simp add: check_key_status_def)
next
  case (Response status body)
  show ?thesis
  proof (cases body)
    case (Inl msg)
    with Response show ?thesis by (simp add: check_key_status_def)
  next
    case (Inr v)
    with Response show ?thesis
      by (cases v) (simp_all add: check_key_status_def)
  qed
qed

theorem check_key_status_truthy_witness:
  "check_key_status (replying (Raised ''timeout'')) ''key-1'' = (False, ''Network error: timeout'')
   \<and> fst (check_key_status (replying (Response 200 (Inr (PDict [(''active'', PBool True)])))) ''key-1'')
   \<and> \<not> fst (check_key_status (replying (Response 200 (Inr (PDict [(''active'', PBool False)])))) ''key-1'')
   \<and> \<not> fst (check_key_status (replying (Response 404 (Inr (PDict [(''active'', PBool True)])))) ''key-1'')"
proof -
  have a: "replying (Raised ''timeout'') (API_URL @ ''/validate'') [(''key'', ''key-1'')] 5 = Raised ''timeout''"
    by (simp add: replying_def)
  have b: "fst (check_key_status (replying (Response 200 (Inr (PDict [(''active'', PBool True)])))) ''key-1'')"
    using check_key_status_truthy [of "replying (Response 200 (Inr (PDict [(''active'', PBool True)])))" "''key-1''"]
    by (simp add: replying_def dict_get_def)
  have c: "\<not> fst (check_key_status (replying (Response 200 (Inr (PDict [(''active'', PBool False)])))) ''key-1'')"
    using check_key_status_truthy [of "replying (Response 200 (Inr (PDict [(''active'', PBool False)])))" "''key-1''"]
    by (simp add: replying_def dict_get_def)
  have d: "\<not> fst (check_key_status (replying (Response 404 (Inr (PDict [(''active'', PBool True)])))) ''key-1'')"
    using check_key_status_truthy [of "replying (Response 404 (Inr (PDict [(''active'', PBool True)])))" "''key-1''"]
    by (simp add: replying_def)
  from check_key_status_truthy [of "replying (Raised ''timeout'')" "''key-1''" "''timeout''"] a b c d
  show ?thesis by simp
qed

section \<open>The state store\<close>

text \<open>
  C10. When the state file holds text that \<open>json.loads\<close> accepts, \<open>load_state\<close> returns the
  parsed value as it is, also when it is no mapping (an array, a string); a missing
  file, an unreadable one and text that does not parse give the empty mapping.
\<close>

theorem load_state_parsed_value:
  "(state_file f = Text t \<and> json_loads t = Value v \<longrightarrow> load_state f = Some v)
   \<and> (state_file f = Missing \<longrightarrow> load_state f = Some (PDict []))
   \<and> (state_file f = Unreadable \<longrightarrow> load_state f = Some (PDict []))
   \<and> (state_file f = Text t \<and> json_loads t = JSONDecodeError \<longrightarrow> load_state f = Some (PDict []))
   \<and> load_state (f\<lparr>state_file := Text ''[1, 2]''\<rparr>) = Some (PList [PInt 1, PInt 2])
   \<and> load_state (f\<lparr>state_file := Text ([CHR 0x22] @ ''abc'' @ [CHR 0x22])\<rparr>) = Some (PStr ''abc'')"
proof -
  have a: "json_loads ''[1, 2]'' = Value (PList [PInt 1, PInt 2])"
    by code_simp
  have b: "json_loads ([CHR 0x22] @ ''abc'' @ [CHR 0x22]) = Value (PStr ''abc'')"
    by code_simp
  show ?thesis
    using a b by (auto simp: load_state_def)
qed

theorem load_state_parsed_value_witness:
  "load_state (example_fs (Text (''{'' @ [CHR 0x22] @ ''api_key'' @ [CHR 0x22] @ '': 7}'')))
     = Some (PDict [(''api_key'', PInt 7)])
   \<and> load_state (example_fs Missing) = Some (PDict [])
   \<and> load_state (example_fs Unreadable) = Some (PDict [])
   \<and> load_state (example_fs (Text ''{oops'')) = Some (PDict [])"
proof -
  have a: "json_loads (''{'' @ [CHR 0x22] @ ''api_key'' @ [CHR 0x22] @ '': 7}'') = Value (PDict [(''api_key'', PInt 7)])"
    by code_simp
  have b: "json_loads ''{oops'' = JSONDecodeError"
    by code_simp
  show ?thesis
    using a b
      load_state_parsed_value [of "example_fs (Text (''{'' @ [CHR 0x22] @ ''api_key'' @ [CHR 0x22] @ '': 7}''))"
        "''{'' @ [CHR 0x22] @ ''api_key'' @ [CHR 0x22] @ '': 7}''" "PDict [(''api_key'', PInt 7)]"]
      load_state_parsed_value [of "example_fs Missing"]
      load_state_parsed_value [of "example_fs Unreadable"]
      load_state_parsed_value [of "example_fs (Text ''{oops'')" "''{oops''"]
    by (simp add: example_fs_def)
qed

section \<open>Scan parsing\<close>

text \<open>The loop of \<open>scan_wifi\<close> keeps, of the records of the lines that count, the first of each SSID.\<close>

lemma scan_wifi_loop_first_by_ssid:
  "scan_wifi_loop nets seen ls = nets @ first_by_ssid seen (map wifi_record (filter wifi_line_ok ls))"
proof (induction ls arbitrary: nets seen)
  case Nil
  then show ?case by simp
next
  case (Cons l ls)
  show ?case
  proof (cases "wifi_line_ok l")
    case False
    then show ?thesis using Cons.IH by (simp add: wifi_line_ok_def Let_def)
  next
    case True
    then show ?thesis
      using Cons.IH by (simp add: wifi_line_ok_def wifi_record_def Let_def)
  qed
qed

lemma first_by_ssid_set: "ssid ` set (first_by_ssid seen ns) = ssid ` set ns - seen"
  by (induction ns arbitrary: seen) auto

lemma first_by_ssid_subset: "set (first_by_ssid seen ns) \<subseteq> set ns"
  by (induction ns arbitrary: seen) auto

lemma first_by_ssid_distinct: "distinct (map ssid (first_by_ssid seen ns))"
proof (induction ns arbitrary: seen)
  case Nil
  then show ?case by simp
next
  case (Cons n ns)
  then show ?case using first_by_ssid_set [of "insert (ssid n) seen" ns] by auto
qed

lemma first_by_ssid_length: "length (first_by_ssid seen ns) \<le> length ns"
  by (induction ns arbitrary: seen) (auto intro: le_SucI)

lemma first_by_ssid_id:
  "distinct (map ssid ns) \<Longrightarrow> ssid ` set ns \<inter> seen = {} \<Longrightarrow> first_by_ssid seen ns = ns"
  by (induction ns arbitrary: seen) auto

lemma distinct_map_insort_key:
  "distinct (map f (insort_key g x xs)) \<longleftrightarrow> f x \<notin> f ` set xs \<and> distinct (map f xs)"
  by (induction xs) (auto simp: set_insort_key)

lemma distinct_map_sort_key: "distinct (map f (sort_key g xs)) \<longleftrightarrow> distinct (map f xs)"
  by (induction xs) (auto simp: sort_key_simps distinct_map_insort_key)

text \<open>The loop of \<open>scan_networks\<close>: what it returns when it returns, and when it does.\<close>

lemma scan_loop_records:
  "scan_loop acc ls = Inr nets \<Longrightarrow>
     nets = acc @ map net_of_line (filter (\<lambda>l. ssid_field l \<noteq> []) ls)
     \<and> (\<forall>l \<in> set ls. ssid_field l \<noteq> [] \<longrightarrow> net_line_ok l)"
proof (induction ls arbitrary: acc)
  case Nil
  then show ?case by simp
next
  case (Cons l ls)
  obtain f fs where sp: "py_split_on CHR '':'' l = f # fs"
    using py_split_on_nonempty [of "CHR '':''" l] by (cases "py_split_on CHR '':'' l") auto
  obtain g where tk: "take 2 (py_split_on CHR '':'' l @ [''0'']) = [f, g]"
     and fl: "ssid_field l = f" and gl: "signal_field l = g"
    using sp by (cases fs) (auto simp: ssid_field_def signal_field_def)
  show ?case
  proof (cases "f = []")
    case True
    with Cons.prems tk have "scan_loop acc ls = Inr nets" by simp
    from Cons.IH [OF this] True fl show ?thesis by simp
  next
    case False
    with Cons.prems tk obtain n where n: "py_int g = Some n"
      and "scan_loop (acc @ [net_entry f n]) ls = Inr nets"
      by (auto split: option.splits)
    from Cons.IH [OF this(2)] False fl gl n show ?thesis
      by (simp add: net_of_line_def net_line_ok_def)
  qed
qed

lemma scan_loop_returns:
  "\<forall>l \<in> set ls. ssid_field l \<noteq> [] \<longrightarrow> net_line_ok l \<Longrightarrow>
     scan_loop acc ls = Inr (acc @ map net_of_line (filter (\<lambda>l. ssid_field l \<noteq> []) ls))"
proof (induction ls arbitrary: acc)
  case Nil
  then show ?case by simp
next
  case (Cons l ls)
  obtain f fs where sp: "py_split_on CHR '':'' l = f # fs"
    using py_split_on_nonempty [of "CHR '':''" l] by (cases "py_split_on CHR '':'' l") auto
  obtain g where tk: "take 2 (py_split_on CHR '':'' l @ [''0'']) = [f, g]"
     and fl: "ssid_field l = f" and gl: "signal_field l = g"
    using sp by (cases fs) (auto simp: ssid_field_def signal_field_def)
  from Cons.prems have rest: "\<forall>l \<in> set ls. ssid_field l \<noteq> [] \<longrightarrow> net_line_ok l" by simp
  show ?case
  proof (cases "f = []")
    case True
    with Cons.IH [OF rest, of acc] tk fl show ?thesis by simp
  next
    case False
    with Cons.prems fl gl obtain n where n: "py_int g = Some n"
      by (auto simp: net_line_ok_def)
    with Cons.IH [OF rest, of "acc @ [net_entry f n]"] False tk fl gl show ?thesis
      by (simp add: net_of_line_def)
  qed
qed

lemma scan_wifi_result:
  assumes "run w [''nmcli'', ''-t'', ''-f'', ''SSID,SIGNAL,SECURITY'', ''device'', ''wifi'', ''list''] 8 tr
             = (Inr (0, out, err), tr')"
  shows "scan_wifi w tr
           = (Inr (sort_networks (first_by_ssid {} (map wifi_record (filter wifi_line_ok (py_splitlines out))))), tr')"
  using assms by (simp add: scan_wifi_def scan_wifi_loop_first_by_ssid)

lemma scan_wifi_result_any:
  assumes "run w [''nmcli'', ''-t'', ''-f'', ''SSID,SIGNAL,SECURITY'', ''device'', ''wifi'', ''list''] 8 tr
             = (Inr (rc, out, err), tr')"
  shows "scan_wifi w tr
           = (Inr (if rc = 0
                   then sort_networks (first_by_ssid {} (map wifi_record (filter wifi_line_ok (py_splitlines out))))
                   else []), tr')"
  using assms by (simp add: scan_wifi_def scan_wifi_loop_first_by_ssid)

lemma scan_networks_result:
  assumes "underscore_run w [''nmcli'', ''-t'', ''-f'', ''SSID,SIGNAL'', ''device'', ''wifi'', ''list''] 10 tr
             = (Inr (rc, out, err), tr')"
    and "\<forall>l \<in> set (py_splitlines out). ssid_field l \<noteq> [] \<longrightarrow> net_line_ok l"
  shows "scan_networks w tr = (Inr (map net_of_line (filter net_line_ok (py_splitlines out))), tr')"
proof -
  have "filter (\<lambda>l. ssid_field l \<noteq> []) (py_splitlines out) = filter net_line_ok (py_splitlines out)"
    using assms(2) by (intro filter_cong) (auto simp: net_line_ok_def)
  with scan_loop_returns [OF assms(2), of "[]"] assms(1) show ?thesis
    by (simp add: scan_networks_def)
qed

text \<open>
  C2, as stated, fails: two well-formed lines with the same SSID give one record in
  \<open>scan_wifi\<close>, and \<open>scan_networks\<close> returns its three records in the order of the lines,
  neither sorted by signal nor free of the repeated SSID.
\<close>

theorem scan_parsing_counterexample:
  "length (filter wifi_line_ok (py_splitlines ''home:70:WPA2\<newline>home:40:WPA2'')) = 2
   \<and> fst (scan_wifi (answering 0 ''home:70:WPA2\<newline>home:40:WPA2'' []) [])
       = Inr [\<lparr>ssid = ''home'', signal = 70, security = ''WPA2''\<rparr>]
   \<and> length (filter net_line_ok (py_splitlines ''cafe:40\<newline>home:70\<newline>cafe:55'')) = 3
   \<and> fst (scan_networks (answering 0 ''cafe:40\<newline>home:70\<newline>cafe:55'' []) [])
       = Inr [net_entry ''cafe'' 40, net_entry ''home'' 70, net_entry ''cafe'' 55]"
  by code_simp

text \<open>
  C2, amended. When the scan command succeeds, \<open>scan_wifi\<close> returns one record for
  each distinct SSID of the \<open>N\<close> lines with at least three fields: the SSIDs are
  pairwise distinct, the list is sorted by signal descending and then by lower-cased
  name, there are at most \<open>N\<close> records, and exactly \<open>N\<close> when the SSIDs of those lines are
  pairwise distinct. \<open>scan_networks\<close>, when every line with a non-empty SSID field has an
  integer signal field, returns the records of those lines in the order of the lines,
  neither deduplicated nor sorted.
\<close>

theorem scan_parsing:
  "(run w [''nmcli'', ''-t'', ''-f'', ''SSID,SIGNAL,SECURITY'', ''device'', ''wifi'', ''list''] 8 tr
      = (Inr (0, out, err), tr') \<longrightarrow>
    (\<exists>nets. scan_wifi w tr = (Inr nets, tr')
       \<and> distinct (map ssid nets)
       \<and> sorted (map (\<lambda>n. (- signal n, py_lower (ssid n))) nets)
       \<and> ssid ` set nets = (\<lambda>l. ssid (wifi_record l)) ` {l \<in> set (py_splitlines out). wifi_line_ok l}
       \<and> length nets \<le> length (filter wifi_line_ok (py_splitlines out))
       \<and> (distinct (map (\<lambda>l. ssid (wifi_record l)) (filter wifi_line_ok (py_splitlines out))) \<longrightarrow>
            length nets = length (filter wifi_line_ok (py_splitlines out)))))
   \<and> (underscore_run w [''nmcli'', ''-t'', ''-f'', ''SSID,SIGNAL'', ''device'', ''wifi'', ''list''] 10 tr
         = (Inr (rc, out', err'), tr'') \<longrightarrow>
       (\<forall>l \<in> set (py_splitlines out'). ssid_field l \<noteq> [] \<longrightarrow> net_line_ok l) \<longrightarrow>
       scan_networks w tr = (Inr (map net_of_line (filter net_line_ok (py_splitlines out'))), tr''))"
proof (intro conjI impI)
  assume r: "run w [''nmcli'', ''-t'', ''-f'', ''SSID,SIGNAL,SECURITY'', ''device'', ''wifi'', ''list''] 8 tr
      = (Inr (0, out, err), tr')"
  define recs where "recs = map wifi_record (filter wifi_line_ok (py_splitlines out))"
  define nets where "nets = sort_networks (first_by_ssid {} recs)"
  have res: "scan_wifi w tr = (Inr nets, tr')"
    using scan_wifi_result [OF r] by (simp add: nets_def recs_def)
  have d: "distinct (map ssid nets)"
    by (simp add: nets_def sort_networks_def distinct_map_sort_key first_by_ssid_distinct)
  have s: "sorted (map (\<lambda>n. (- signal n, py_lower (ssid n))) nets)"
    by (simp add: nets_def sort_networks_def)
  have e: "ssid ` set nets = (\<lambda>l. ssid (wifi_record l)) ` {l \<in> set (py_splitlines out). wifi_line_ok l}"
    using first_by_ssid_set [of "{}" recs]
    by (auto simp: nets_def sort_networks_def recs_def image_iff)
  have l: "length nets \<le> length (filter wifi_line_ok (py_splitlines out))"
    using first_by_ssid_length [of "{}" recs] by (simp add: nets_def sort_networks_def recs_def)
  have n: "length nets = length (filter wifi_line_ok (py_splitlines out))"
    if "distinct (map (\<lambda>l. ssid (wifi_record l)) (filter wifi_line_ok (py_splitlines out)))"
  proof -
    from that have "distinct (map ssid recs)" by (simp add: recs_def comp_def)
    then have "first_by_ssid {} recs = recs" by (rule first_by_ssid_id) simp
    then show ?thesis by (simp add: nets_def sort_networks_def recs_def)
  qed
  from res d s e l n
  show "\<exists>nets. scan_wifi w tr = (Inr nets, tr')
       \<and> distinct (map ssid nets)
       \<and> sorted (map (\<lambda>n. (- signal n, py_lower (ssid n))) nets)
       \<and> ssid ` set nets = (\<lambda>l. ssid (wifi_record l)) ` {l \<in> set (py_splitlines out). wifi_line_ok l}
       \<and> length nets \<le> length (filter wifi_line_ok (py_splitlines out))
       \<and> (distinct (map (\<lambda>l. ssid (wifi_record l)) (filter wifi_line_ok (py_splitlines out))) \<longrightarrow>
            length nets = length (filter wifi_line_ok (py_splitlines out)))"
    by blast
next
  assume "underscore_run w [''nmcli'', ''-t'', ''-f'', ''SSID,SIGNAL'', ''device'', ''wifi'', ''list''] 10 tr
         = (Inr (rc, out', err'), tr'')"
    and "\<forall>l \<in> set (py_splitlines out'). ssid_field l \<noteq> [] \<longrightarrow> net_line_ok l"
  then show "scan_networks w tr = (Inr (map net_of_line (filter net_line_ok (py_splitlines out'))), tr'')"
    by (rule scan_networks_result)
qed

theorem scan_parsing_witness:
  "scan_wifi (answering 0 ''cafe:40:WPA2\<newline>home:70:--\<newline>bad\<newline>CAFE:40:WPA2'' []) []
     = (Inr [\<lparr>ssid = ''home'', signal = 70, security = ''--''\<rparr>,
             \<lparr>ssid = ''cafe'', signal = 40, security = ''WPA2''\<rparr>,
             \<lparr>ssid = ''CAFE'', signal = 40, security = ''WPA2''\<rparr>],
        [Exec [''nmcli'', ''-t'', ''-f'', ''SSID,SIGNAL,SECURITY'', ''device'', ''wifi'', ''list''] 8])
   \<and> length (filter wifi_line_ok (py_splitlines ''cafe:40:WPA2\<newline>home:70:--\<newline>bad\<newline>CAFE:40:WPA2'')) = 3
   \<and> scan_networks (answering 0 ''cafe:40:WPA2\<newline>home:70:--\<newline>bad\<newline>CAFE:40:WPA2'' []) []
     = (Inr [net_entry ''cafe'' 40, net_entry ''home'' 70, net_entry ''bad'' 0, net_entry ''CAFE'' 40],
        [Exec [''nmcli'', ''-t'', ''-f'', ''SSID,SIGNAL'', ''device'', ''wifi'', ''list''] 10])"
proof -
  let ?out = "''cafe:40:WPA2\<newline>home:70:--\<newline>bad\<newline>CAFE:40:WPA2''"
  let ?w = "answering 0 ?out []"
  have r: "run ?w [''nmcli'', ''-t'', ''-f'', ''SSID,SIGNAL,SECURITY'', ''device'', ''wifi'', ''list''] 8 []
             = (Inr (0, ?out, []),
                [Exec [''nmcli'', ''-t'', ''-f'', ''SSID,SIGNAL,SECURITY'', ''device'', ''wifi'', ''list''] 8])"
    by code_simp
  have u: "underscore_run ?w [''nmcli'', ''-t'', ''-f'', ''SSID,SIGNAL'', ''device'', ''wifi'', ''list''] 10 []
             = (Inr (0, ?out, []),
                [Exec [''nmcli'', ''-t'', ''-f'', ''SSID,SIGNAL'', ''device'', ''wifi'', ''list''] 10])"
    by code_simp
  have ok: "\<forall>l \<in> set (py_splitlines ?out). ssid_field l \<noteq> [] \<longrightarrow> net_line_ok l"
    by code_simp
  have d: "distinct (map (\<lambda>l. ssid (wifi_record l)) (filter wifi_line_ok (py_splitlines ?out)))"
    by code_simp
  have n: "length (filter wifi_line_ok (py_splitlines ?out)) = 3"
    by code_simp
  have v: "map net_of_line (filter net_line_ok (py_splitlines ?out))
             = [net_entry ''cafe'' 40, net_entry ''home'' 70, net_entry ''bad'' 0, net_entry ''CAFE'' 40]"
    by code_simp
  have h: "scan_wifi ?w [] 
     = (Inr [\<lparr>ssid = ''home'', signal = 70, security = ''--''\<rparr>,
             \<lparr>ssid = ''cafe'', signal = 40, security = ''WPA2''\<rparr>,
             \<lparr>ssid = ''CAFE'', signal = 40, security = ''WPA2''\<rparr>],
        [Exec [''nmcli'', ''-t'', ''-f'', ''SSID,SIGNAL,SECURITY'', ''device'', ''wifi'', ''list''] 8])"
    by code_simp
  note t = scan_parsing [of ?w "[]" ?out "[]"
      "[Exec [''nmcli'', ''-t'', ''-f'', ''SSID,SIGNAL,SECURITY'', ''device'', ''wifi'', ''list''] 8]"
      0 ?out "[]"
      "[Exec [''nmcli'', ''-t'', ''-f'', ''SSID,SIGNAL'', ''device'', ''wifi'', ''list''] 10]"]
  from t [THEN conjunct1, rule_format, OF r] d
  have "\<exists>nets. scan_wifi ?w [] = (Inr nets,
          [Exec [''nmcli'', ''-t'', ''-f'', ''SSID,SIGNAL,SECURITY'', ''device'', ''wifi'', ''list''] 8])
        \<and> length nets = length (filter wifi_line_ok (py_splitlines ?out))"
    by blast
  moreover from t [THEN conjunct2, THEN mp, OF u, THEN mp, OF ok]
  have "scan_networks ?w [] = (Inr (map net_of_line (filter net_line_ok (py_splitlines ?out))),
          [Exec [''nmcli'', ''-t'', ''-f'', ''SSID,SIGNAL'', ''device'', ''wifi'', ''list''] 10])" .
  ultimately show ?thesis
    using h n v by simp
qed

text \<open>
  \<open>int()\<close> and \<open>strip()\<close> differ on the separators U+001C .. U+001F: \<open>strip()\<close> drops
  them, \<open>int()\<close> raises on them, so such a signal field makes \<open>scan_networks\<close> raise as
  well.
\<close>

lemma py_int_separator:
  "py_strip (CHR 0x1F # ''5'') = ''5''
   \<and> py_int (CHR 0x1F # ''5'') = None
   \<and> py_int (''5'' @ [CHR 0x1F]) = None
   \<and> py_int (CHR 0xA0 # '' 5'' @ [CHR 0x09, CHR 0x85]) = Some 5
   \<and> fst (scan_networks (answering 0 (''e:'' @ [CHR 0x1F] @ ''5'') []) []) = Inl ValueError"
  by code_simp

text \<open>
  A signal field that is no integer, here from an SSID with a colon in it, makes
  \<open>scan_networks\<close> raise; no record is returned.
\<close>

lemma scan_networks_raises:
  "scan_networks (answering 0 ''home:70\<newline>my:net:55'' []) []
     = (Inl ValueError, [Exec [''nmcli'', ''-t'', ''-f'', ''SSID,SIGNAL'', ''device'', ''wifi'', ''list''] 10])"
  by code_simp

text \<open>
  C7, as stated, fails: \<open>scan_wifi\<close> does not skip a line whose signal field is not an
  integer, it keeps the line with signal 0.
\<close>

theorem malformed_lines_counterexample:
  "py_int ''strong'' = None
   \<and> fst (scan_wifi (answering 0 ''home:strong:WPA2'' []) [])
       = Inr [\<lparr>ssid = ''home'', signal = 0, security = ''WPA2''\<rparr>]"
  by code_simp

text \<open>
  C7, amended. For every output text that the scan command gives, \<open>scan_wifi\<close> returns
  and does not raise: when the return code of the command is not 0 it returns no
  record; when it is 0 it skips the lines with fewer than three fields, builds a
  record from every other line (the SSID of each such line is among the records
  returned) and reads a signal field that is not an integer as 0. \<open>scan_networks\<close> skips
  the lines whose SSID field is empty, and returns a record for every other line when
  each of them has an integer signal field.
\<close>

theorem malformed_lines:
  "(run w [''nmcli'', ''-t'', ''-f'', ''SSID,SIGNAL,SECURITY'', ''device'', ''wifi'', ''list''] 8 tr
      = (Inr (rc, out, err), tr') \<longrightarrow>
      scan_wifi w tr
        = (Inr (if rc = 0
                then sort_networks (first_by_ssid {} (map wifi_record (filter wifi_line_ok (py_splitlines out))))
                else []), tr'))
   \<and> (\<forall>l \<in> set ls. wifi_line_ok l \<longrightarrow>
         ssid (wifi_record l) \<in> ssid ` set (sort_networks
            (first_by_ssid {} (map wifi_record (filter wifi_line_ok ls)))))
   \<and> set (first_by_ssid {} (map wifi_record (filter wifi_line_ok ls))) \<subseteq> wifi_record ` {l \<in> set ls. wifi_line_ok l}
   \<and> (py_int (py_strip (py_split_on CHR '':'' l ! (length (py_split_on CHR '':'' l) - 2))) = None \<longrightarrow>
        signal (wifi_record l) = 0)
   \<and> (underscore_run w [''nmcli'', ''-t'', ''-f'', ''SSID,SIGNAL'', ''device'', ''wifi'', ''list''] 10 tr
         = (Inr (rc', out', err'), tr'') \<longrightarrow>
       (\<forall>l \<in> set (py_splitlines out'). ssid_field l \<noteq> [] \<longrightarrow> net_line_ok l) \<longrightarrow>
       scan_networks w tr
         = (Inr (map net_of_line (filter (\<lambda>l. ssid_field l \<noteq> []) (py_splitlines out'))), tr''))"
proof (intro conjI impI)
  assume "run w [''nmcli'', ''-t'', ''-f'', ''SSID,SIGNAL,SECURITY'', ''device'', ''wifi'', ''list''] 8 tr
      = (Inr (rc, out, err), tr')"
  then show "scan_wifi w tr
        = (Inr (if rc = 0
                then sort_networks (first_by_ssid {} (map wifi_record (filter wifi_line_ok (py_splitlines out))))
                else []), tr')"
    by (rule scan_wifi_result_any)
next
  show "\<forall>l \<in> set ls. wifi_line_ok l \<longrightarrow>
         ssid (wifi_record l) \<in> ssid ` set (sort_networks
            (first_by_ssid {} (map wifi_record (filter wifi_line_ok ls))))"
    using first_by_ssid_set [of "{}" "map wifi_record (filter wifi_line_ok ls)"]
    by (auto simp: sort_networks_def)
next
  show "set (first_by_ssid {} (map wifi_record (filter wifi_line_ok ls))) \<subseteq> wifi_record ` {l \<in> set ls. wifi_line_ok l}"
    using first_by_ssid_subset [of "{}" "map wifi_record (filter wifi_line_ok ls)"] by auto
next
  assume "py_int (py_strip (py_split_on CHR '':'' l ! (length (py_split_on CHR '':'' l) - 2))) = None"
  then show "signal (wifi_record l) = 0"
    by (simp add: wifi_record_def Let_def)
next
  assume u: "underscore_run w [''nmcli'', ''-t'', ''-f'', ''SSID,SIGNAL'', ''device'', ''wifi'', ''list''] 10 tr
         = (Inr (rc', out', err'), tr'')"
    and ok: "\<forall>l \<in> set (py_splitlines out'). ssid_field l \<noteq> [] \<longrightarrow> net_line_ok l"
  from scan_loop_returns [OF ok, of "[]"] u
  show "scan_networks w tr
         = (Inr (map net_of_line (filter (\<lambda>l. ssid_field l \<noteq> []) (py_splitlines out'))), tr'')"
    by (simp add: scan_networks_def)
qed

theorem malformed_lines_witness:
  "scan_wifi (answering 0 ''home:70:WPA2\<newline>short:1\<newline>cafe:strong:--'' []) []
     = (Inr [\<lparr>ssid = ''home'', signal = 70, security = ''WPA2''\<rparr>,
             \<lparr>ssid = ''cafe'', signal = 0, security = ''--''\<rparr>],
        [Exec [''nmcli'', ''-t'', ''-f'', ''SSID,SIGNAL,SECURITY'', ''device'', ''wifi'', ''list''] 8])
   \<and> scan_wifi (answering 1 ''home:70:WPA2'' ''no wifi device'') []
     = (Inr [], [Exec [''nmcli'', ''-t'', ''-f'', ''SSID,SIGNAL,SECURITY'', ''device'', ''wifi'', ''list''] 8])
   \<and> signal (wifi_record ''cafe:strong:--'') = 0
   \<and> scan_networks (answering 0 ''home:70\<newline>:55\<newline>cafe'' []) []
     = (Inr [net_entry ''home'' 70, net_entry ''cafe'' 0],
        [Exec [''nmcli'', ''-t'', ''-f'', ''SSID,SIGNAL'', ''device'', ''wifi'', ''list''] 10])"
proof -
  let ?out = "''home:70:WPA2\<newline>short:1\<newline>cafe:strong:--''"
  let ?out' = "''home:70\<newline>:55\<newline>cafe''"
  have r: "run (answering 0 ?out []) [''nmcli'', ''-t'', ''-f'', ''SSID,SIGNAL,SECURITY'', ''device'', ''wifi'', ''list''] 8 []
             = (Inr (0, ?out, []),
                [Exec [''nmcli'', ''-t'', ''-f'', ''SSID,SIGNAL,SECURITY'', ''device'', ''wifi'', ''list''] 8])"
    by code_simp
  have r1: "run (answering 1 ''home:70:WPA2'' ''no wifi device'')
              [''nmcli'', ''-t'', ''-f'', ''SSID,SIGNAL,SECURITY'', ''device'', ''wifi'', ''list''] 8 []
             = (Inr (1, ''home:70:WPA2'', ''no wifi device''),
                [Exec [''nmcli'', ''-t'', ''-f'', ''SSID,SIGNAL,SECURITY'', ''device'', ''wifi'', ''list''] 8])"
    by code_simp
  have u: "underscore_run (answering 0 ?out' []) [''nmcli'', ''-t'', ''-f'', ''SSID,SIGNAL'', ''device'', ''wifi'', ''list''] 10 []
             = (Inr (0, ?out', []),
                [Exec [''nmcli'', ''-t'', ''-f'', ''SSID,SIGNAL'', ''device'', ''wifi'', ''list''] 10])"
    by code_simp
  have ok: "\<forall>l \<in> set (py_splitlines ?out'). ssid_field l \<noteq> [] \<longrightarrow> net_line_ok l"
    by code_simp
  have p: "py_int (py_strip (py_split_on CHR '':'' ''cafe:strong:--'' ! (length (py_split_on CHR '':'' ''cafe:strong:--'') - 2))) = None"
    by code_simp
  have v: "sort_networks (first_by_ssid {} (map wifi_record (filter wifi_line_ok (py_splitlines ?out))))
             = [\<lparr>ssid = ''home'', signal = 70, security = ''WPA2''\<rparr>,
                \<lparr>ssid = ''cafe'', signal = 0, security = ''--''\<rparr>]"
    by code_simp
  have v': "map net_of_line (filter (\<lambda>l. ssid_field l \<noteq> []) (py_splitlines ?out'))
              = [net_entry ''home'' 70, net_entry ''cafe'' 0]"
    by code_simp
  note a = malformed_lines [where w = "answering 0 ?out []" and tr = "[]" and rc = 0 and out = ?out
      and err = "[]"
      and tr' = "[Exec [''nmcli'', ''-t'', ''-f'', ''SSID,SIGNAL,SECURITY'', ''device'', ''wifi'', ''list''] 8]"
      and l = "''cafe:strong:--''"]
  note b = malformed_lines [where w = "answering 0 ?out' []" and tr = "[]" and rc' = 0 and out' = ?out'
      and err' = "[]"
      and tr'' = "[Exec [''nmcli'', ''-t'', ''-f'', ''SSID,SIGNAL'', ''device'', ''wifi'', ''list''] 10]"]
  note c = malformed_lines [where w = "answering 1 ''home:70:WPA2'' ''no wifi device''" and tr = "[]"
      and rc = 1 and out = "''home:70:WPA2''" and err = "''no wifi device''"
      and tr' = "[Exec [''nmcli'', ''-t'', ''-f'', ''SSID,SIGNAL,SECURITY'', ''device'', ''wifi'', ''list''] 8]"]
  have 1: "scan_wifi (answering 0 ?out []) []
        = (Inr (sort_networks (first_by_ssid {} (map wifi_record (filter wifi_line_ok (py_splitlines ?out))))),
           [Exec [''nmcli'', ''-t'', ''-f'', ''SSID,SIGNAL,SECURITY'', ''device'', ''wifi'', ''list''] 8])"
    using a [THEN conjunct1, THEN mp, OF r] by simp
  have 2: "signal (wifi_record ''cafe:strong:--'') = 0"
    using a [THEN conjunct2, THEN conjunct2, THEN conjunct2, THEN conjunct1, THEN mp, OF p] .
  have 3: "scan_networks (answering 0 ?out' []) []
         = (Inr (map net_of_line (filter (\<lambda>l. ssid_field l \<noteq> []) (py_splitlines ?out'))),
            [Exec [''nmcli'', ''-t'', ''-f'', ''SSID,SIGNAL'', ''device'', ''wifi'', ''list''] 10])"
    using b [THEN conjunct2, THEN conjunct2, THEN conjunct2, THEN conjunct2, THEN mp, OF u, THEN mp, OF ok] .
  have 4: "scan_wifi (answering 1 ''home:70:WPA2'' ''no wifi device'') []
        = (Inr [], [Exec [''nmcli'', ''-t'', ''-f'', ''SSID,SIGNAL,SECURITY'', ''device'', ''wifi'', ''list''] 8])"
    using c [THEN conjunct1, THEN mp, OF r1] by simp
  show ?thesis
    using 1 2 3 4 unfolding v v' by simp
qed

section \<open>Connecting\<close>

text \<open>Each call of a runner adds its command to the trace, whatever the outcome.\<close>

lemma commands_append: "commands (tr @ tr') = commands tr @ commands tr'"
  by (simp add: commands_def)

lemma run_commands: "run w c t tr = (r, tr') \<Longrightarrow> commands tr' = commands tr @ [c]"
  by (auto simp: run_def Let_def commands_def split: if_splits option.splits)

lemma underscore_run_commands: "underscore_run w c t tr = (r, tr') \<Longrightarrow> commands tr' = commands tr @ [c]"
  by (auto simp: underscore_run_def Let_def commands_def split: if_splits option.splits)

text \<open>The three ways through \<open>connect_hidden_wifi\<close>.\<close>

lemma connect_hidden_wifi_succeeds_at_once:
  assumes "name \<noteq> []" and "run w (hidden_cmd name pw) 25 tr = (Inr (0, out, err), tr1)"
  shows "connect_hidden_wifi w name pw tr = (Inr (True, py_or out ''Connected.''), tr1)"
    and "commands tr1 = commands tr @ [hidden_cmd name pw]"
  using assms run_commands [OF assms(2)] by (simp_all add: connect_hidden_wifi_def)

lemma connect_hidden_wifi_add_fails:
  assumes "name \<noteq> []" and "run w (hidden_cmd name pw) 25 tr = (Inr (rc, out, err), tr1)" and "rc \<noteq> 0"
    and "run w (add_cmd name pw) 15 tr1 = (Inr (rc2, out2, err2), tr2)"
    and "rc2 \<noteq> 0" and "\<not> py_in ''exists'' (py_lower (out2 @ err2))"
  shows "connect_hidden_wifi w name pw tr
           = (Inr (False, py_or err2 (py_or out2 ''Failed to create connection profile.'')), tr2)"
    and "commands tr2 = commands tr @ [hidden_cmd name pw, add_cmd name pw]"
  using assms run_commands [OF assms(2)] run_commands [OF assms(4)]
  by (simp_all add: connect_hidden_wifi_def)

lemma connect_hidden_wifi_brings_up:
  assumes "name \<noteq> []" and "run w (hidden_cmd name pw) 25 tr = (Inr (rc, out, err), tr1)" and "rc \<noteq> 0"
    and "run w (add_cmd name pw) 15 tr1 = (Inr (rc2, out2, err2), tr2)"
    and "rc2 = 0 \<or> py_in ''exists'' (py_lower (out2 @ err2))"
  shows "connect_hidden_wifi w name pw tr
           = (case run w (up_cmd name) 20 tr2 of
                (Inl e, tr3) \<Rightarrow> (Inl e, tr3)
              | (Inr (rc3, out3, err3), tr3) \<Rightarrow>
                  if rc3 = 0 then (Inr (True, py_or out3 ''Connected.''), tr3)
                  else (Inr (False, py_or err3 (py_or out3 ''Failed to bring up connection.'')), tr3))"
    and "commands (snd (connect_hidden_wifi w name pw tr))
           = commands tr @ [hidden_cmd name pw, add_cmd name pw, up_cmd name]"
proof -
  show a: "connect_hidden_wifi w name pw tr
           = (case run w (up_cmd name) 20 tr2 of
                (Inl e, tr3) \<Rightarrow> (Inl e, tr3)
              | (Inr (rc3, out3, err3), tr3) \<Rightarrow>
                  if rc3 = 0 then (Inr (True, py_or out3 ''Connected.''), tr3)
                  else (Inr (False, py_or err3 (py_or out3 ''Failed to bring up connection.'')), tr3))"
    using assms by (auto simp: connect_hidden_wifi_def)
  obtain r3 tr3 where u: "run w (up_cmd name) 20 tr2 = (r3, tr3)"
    by (cases "run w (up_cmd name) 20 tr2")
  have "snd (connect_hidden_wifi w name pw tr) = tr3"
    unfolding a u by (auto split: sum.splits prod.splits)
  with run_commands [OF assms(2)] run_commands [OF assms(4)] run_commands [OF u]
  show "commands (snd (connect_hidden_wifi w name pw tr))
           = commands tr @ [hidden_cmd name pw, add_cmd name pw, up_cmd name]"
    by simp
qed

lemma connect_hidden_wifi_first:
  assumes "name \<noteq> []"
  shows "\<exists>rest. commands (snd (connect_hidden_wifi w name pw tr)) = commands tr @ hidden_cmd name pw # rest"
proof -
  obtain r1 tr1 where a: "run w (hidden_cmd name pw) 25 tr = (r1, tr1)"
    by (cases "run w (hidden_cmd name pw) 25 tr")
  obtain r2 tr2 where b: "run w (add_cmd name pw) 15 tr1 = (r2, tr2)"
    by (cases "run w (add_cmd name pw) 15 tr1")
  obtain r3 tr3 where c: "run w (up_cmd name) 20 tr2 = (r3, tr3)"
    by (cases "run w (up_cmd name) 20 tr2")
  show ?thesis
    using assms a b c run_commands [OF a] run_commands [OF b] run_commands [OF c]
    by (auto simp: connect_hidden_wifi_def split: sum.splits prod.splits)
qed

lemma get_ip_addresses_extends:
  "\<exists>rest. commands (snd (get_ip_addresses w tr)) = commands tr @ rest"
proof -
  obtain r1 tr1 where a: "run w [''hostname'', ''-I''] 8 tr = (r1, tr1)"
    by (cases "run w [''hostname'', ''-I''] 8 tr")
  obtain r2 tr2 where b: "run w [''ip'', ''-4'', ''-o'', ''addr'', ''show''] 8 tr1 = (r2, tr2)"
    by (cases "run w [''ip'', ''-4'', ''-o'', ''addr'', ''show''] 8 tr1")
  show ?thesis
    using a b run_commands [OF a] run_commands [OF b]
    by (auto simp: get_ip_addresses_def split: sum.splits prod.splits)
qed

lemma needs_pwd_absent: "name \<notin> ssid ` set nets \<Longrightarrow> needs_pwd nets name"
proof -
  assume "name \<notin> ssid ` set nets"
  then have "find (\<lambda>n. ssid n = name) nets = None"
    by (auto simp: find_None_iff)
  then show ?thesis by (simp add: needs_pwd_def)
qed

lemma connect_selected_hidden:
  assumes "name \<noteq> []" and "name \<noteq> ''(hidden)''" and "name \<notin> ssid ` set nets"
  shows "connect_selected w nets name pw tr = connect_hidden_wifi w name pw tr"
  using assms needs_pwd_absent [OF assms(3)] by (simp add: connect_selected_def)

lemma attempt_connect_hidden_first:
  assumes "selected_ssid u = Some name" and "name \<noteq> []" and "name \<noteq> ''(hidden)''"
    and "name \<noteq> ''(hidden-enter-next)''" and "name \<notin> ssid ` set (networks u)"
  shows "\<exists>rest. commands (snd (snd (attempt_connect w u tr)))
           = commands tr @ hidden_cmd name (if password_value u \<noteq> [] then Some (password_value u) else None) # rest"
proof -
  let ?pw = "if password_value u \<noteq> [] then Some (password_value u) else None"
  obtain r1 tr1 where c: "connect_hidden_wifi w name ?pw tr = (r1, tr1)"
    by (cases "connect_hidden_wifi w name ?pw tr")
  from connect_hidden_wifi_first [OF assms(2), of w ?pw tr] c
  obtain rest where t1: "commands tr1 = commands tr @ hidden_cmd name ?pw # rest"
    by auto
  obtain r2 tr2 where g: "get_ip_addresses w tr1 = (r2, tr2)"
    by (cases "get_ip_addresses w tr1")
  from get_ip_addresses_extends [of w tr1] g
  obtain rest2 where t2: "commands tr2 = commands tr1 @ rest2"
    by auto
  have sel: "connect_selected w (networks u) name ?pw tr = (r1, tr1)"
    using connect_selected_hidden [OF assms(2,3,5)] c by simp
  have "snd (snd (attempt_connect w u tr)) = tr1 \<or> snd (snd (attempt_connect w u tr)) = tr2"
    using assms(1,4) sel g
    by (auto simp: attempt_connect_def Let_def split: sum.splits prod.splits)
  with t1 t2 show ?thesis by auto
qed

text \<open>
  C3, as stated, fails: \<open>connect_network\<close> runs the plain connect command for an SSID that
  no scan has seen; the archived wizard runs no command for the placeholder
  \<open>(hidden)\<close>; and \<open>connect_hidden_wifi\<close> does not bring the profile up when its creation
  has failed.
\<close>

theorem hidden_network_fallback_counterexample:
  "commands (snd (connect_network (answering 10 [] ''no such network'') ''ghost'' ''pw'' []))
     = [[''sudo'', ''nmcli'', ''device'', ''wifi'', ''connect'', ''ghost'', ''password'', ''pw'']]
   \<and> commands (snd (snd (attempt_connect (answering 10 [] ''no such network'') (example_ui ''(hidden)'' [] ''pw'') [])))
     = []
   \<and> connect_hidden_wifi (answering 10 [] ''failed'') ''ghost'' None []
     = (Inr (False, ''failed''),
        [Exec [''nmcli'', ''device'', ''wifi'', ''connect'', ''ghost'', ''hidden'', ''yes''] 25,
         Exec [''nmcli'', ''connection'', ''add'', ''type'', ''wifi'', ''con-name'', ''ghost'', ''ifname'', ''*'',
               ''ssid'', ''ghost''] 15])"
  by code_simp

text \<open>
  C3, amended. In the archived wizard (\<open>attempt_connect\<close>), for every selected SSID
  that is not empty, is neither of the placeholders \<open>(hidden)\<close> and
  \<open>(hidden-enter-next)\<close> and is absent from the last scan result, the connect takes the
  hidden-network path, \<open>connect_hidden_wifi\<close>: the first command is the direct connect
  with the hidden flag; when it succeeds nothing else runs; when it fails the command
  that creates a connection profile runs next, and the profile is brought up exactly
  when the creation succeeded or its output says that the profile exists.
  \<open>connect_network\<close> of \<open>bootstrap/utils\<close> has no hidden path: it runs the one plain
  connect command.
\<close>

theorem hidden_network_fallback:
  "(selected_ssid u = Some name \<and> name \<noteq> [] \<and> name \<noteq> ''(hidden)'' \<and> name \<noteq> ''(hidden-enter-next)''
      \<and> name \<notin> ssid ` set (networks u) \<longrightarrow>
      connect_selected w (networks u) name pw tr = connect_hidden_wifi w name pw tr
      \<and> (\<exists>rest. commands (snd (snd (attempt_connect w u tr)))
            = commands tr
              @ hidden_cmd name (if password_value u \<noteq> [] then Some (password_value u) else None) # rest))
   \<and> (name \<noteq> [] \<and> run w (hidden_cmd name pw) 25 tr = (Inr (0, out, err), tr1) \<longrightarrow>
        connect_hidden_wifi w name pw tr = (Inr (True, py_or out ''Connected.''), tr1)
        \<and> commands tr1 = commands tr @ [hidden_cmd name pw])
   \<and> (name \<noteq> [] \<and> run w (hidden_cmd name pw) 25 tr = (Inr (rc, out, err), tr1) \<and> rc \<noteq> 0
        \<and> run w (add_cmd name pw) 15 tr1 = (Inr (rc2, out2, err2), tr2) \<longrightarrow>
        (if rc2 \<noteq> 0 \<and> \<not> py_in ''exists'' (py_lower (out2 @ err2))
         then connect_hidden_wifi w name pw tr
                = (Inr (False, py_or err2 (py_or out2 ''Failed to create connection profile.'')), tr2)
              \<and> commands tr2 = commands tr @ [hidden_cmd name pw, add_cmd name pw]
         else commands (snd (connect_hidden_wifi w name pw tr))
                = commands tr @ [hidden_cmd name pw, add_cmd name pw, up_cmd name]))
   \<and> commands (snd (connect_network w name password tr))
       = commands tr @ [[''sudo'', ''nmcli'', ''device'', ''wifi'', ''connect'', name]
                        @ (if password \<noteq> [] then [''password'', password] else [])]"
proof (intro conjI impI)
  assume a: "selected_ssid u = Some name \<and> name \<noteq> [] \<and> name \<noteq> ''(hidden)'' \<and> name \<noteq> ''(hidden-enter-next)''
      \<and> name \<notin> ssid ` set (networks u)"
  then show "connect_selected w (networks u) name pw tr = connect_hidden_wifi w name pw tr"
    by (intro connect_selected_hidden) simp_all
  from a show "\<exists>rest. commands (snd (snd (attempt_connect w u tr)))
            = commands tr
              @ hidden_cmd name (if password_value u \<noteq> [] then Some (password_value u) else None) # rest"
    by (intro attempt_connect_hidden_first) simp_all
next
  assume a: "name \<noteq> [] \<and> run w (hidden_cmd name pw) 25 tr = (Inr (0, out, err), tr1)"
  then show "connect_hidden_wifi w name pw tr = (Inr (True, py_or out ''Connected.''), tr1)"
    by (intro connect_hidden_wifi_succeeds_at_once) simp_all
  from a show "commands tr1 = commands tr @ [hidden_cmd name pw]"
    using connect_hidden_wifi_succeeds_at_once(2) by blast
next
  assume a: "name \<noteq> [] \<and> run w (hidden_cmd name pw) 25 tr = (Inr (rc, out, err), tr1) \<and> rc \<noteq> 0
        \<and> run w (add_cmd name pw) 15 tr1 = (Inr (rc2, out2, err2), tr2)"
  show "if rc2 \<noteq> 0 \<and> \<not> py_in ''exists'' (py_lower (out2 @ err2))
         then connect_hidden_wifi w name pw tr
                = (Inr (False, py_or err2 (py_or out2 ''Failed to create connection profile.'')), tr2)
              \<and> commands tr2 = commands tr @ [hidden_cmd name pw, add_cmd name pw]
         else commands (snd (connect_hidden_wifi w name pw tr))
                = commands tr @ [hidden_cmd name pw, add_cmd name pw, up_cmd name]"
  proof (cases "rc2 \<noteq> 0 \<and> \<not> py_in ''exists'' (py_lower (out2 @ err2))")
    case True
    with a connect_hidden_wifi_add_fails [of name w pw tr rc out err tr1 rc2 out2 err2 tr2]
    show ?thesis by simp
  next
    case False
    with a connect_hidden_wifi_brings_up(2) [of name w pw tr rc out err tr1 rc2 out2 err2 tr2]
    show ?thesis by auto
  qed
next
  obtain r tr' where u: "underscore_run w ([''sudo'', ''nmcli'', ''device'', ''wifi'', ''connect'', name]
                        @ (if password \<noteq> [] then [''password'', password] else [])) 30 tr = (r, tr')"
    by (cases "underscore_run w ([''sudo'', ''nmcli'', ''device'', ''wifi'', ''connect'', name]
                        @ (if password \<noteq> [] then [''password'', password] else [])) 30 tr")
  have "snd (connect_network w name password tr) = tr'"
    using u by (auto simp: connect_network_def Let_def split: sum.splits prod.splits)
  with underscore_run_commands [OF u]
  show "commands (snd (connect_network w name password tr))
       = commands tr @ [[''sudo'', ''nmcli'', ''device'', ''wifi'', ''connect'', name]
                        @ (if password \<noteq> [] then [''password'', password] else [])]"
    by simp
qed

theorem hidden_network_fallback_witness:
  "commands (snd (snd (attempt_connect hidden_fails
       (example_ui ''ghost'' [\<lparr>ssid = ''home'', signal = 70, security = ''WPA2''\<rparr>] ''pw'') [])))
     = [hidden_cmd ''ghost'' (Some ''pw''), add_cmd ''ghost'' (Some ''pw''), up_cmd ''ghost'',
        [''hostname'', ''-I'']]
   \<and> connect_hidden_wifi (answering 0 ''ok'' []) ''ghost'' None []
     = (Inr (True, ''ok''), [Exec (hidden_cmd ''ghost'' None) 25])
   \<and> commands (snd (connect_hidden_wifi hidden_fails ''ghost'' (Some ''pw'') []))
     = [hidden_cmd ''ghost'' (Some ''pw''), add_cmd ''ghost'' (Some ''pw''), up_cmd ''ghost'']
   \<and> connect_hidden_wifi (answering 10 [] ''failed'') ''ghost'' None []
     = (Inr (False, ''failed''), [Exec (hidden_cmd ''ghost'' None) 25, Exec (add_cmd ''ghost'' None) 15])"
proof -
  let ?u = "example_ui ''ghost'' [\<lparr>ssid = ''home'', signal = 70, security = ''WPA2''\<rparr>] ''pw''"
  have sel: "selected_ssid ?u = Some ''ghost'' \<and> ''ghost'' \<noteq> [] \<and> ''ghost'' \<noteq> ''(hidden)''
      \<and> ''ghost'' \<noteq> ''(hidden-enter-next)'' \<and> ''ghost'' \<notin> ssid ` set (networks ?u)"
    by (simp add: example_ui_def)
  have first: "\<exists>rest. commands (snd (snd (attempt_connect hidden_fails ?u [])))
            = commands [] @ hidden_cmd ''ghost'' (if password_value ?u \<noteq> [] then Some (password_value ?u) else None) # rest"
    using hidden_network_fallback [where u = ?u and name = "''ghost''" and w = hidden_fails and tr = "[]",
        THEN conjunct1, THEN mp, OF sel]
    by blast
  have all: "commands (snd (snd (attempt_connect hidden_fails ?u [])))
     = [hidden_cmd ''ghost'' (Some ''pw''), add_cmd ''ghost'' (Some ''pw''), up_cmd ''ghost'',
        [''hostname'', ''-I'']]"
    by code_simp
  have r0: "''ghost'' \<noteq> [] \<and> run (answering 0 ''ok'' []) (hidden_cmd ''ghost'' None) 25 []
              = (Inr (0, ''ok'', []), [Exec (hidden_cmd ''ghost'' None) 25])"
    by code_simp
  have once: "connect_hidden_wifi (answering 0 ''ok'' []) ''ghost'' None []
                = (Inr (True, py_or ''ok'' ''Connected.''), [Exec (hidden_cmd ''ghost'' None) 25])"
    using hidden_network_fallback [where name = "''ghost''" and w = "answering 0 ''ok'' []" and pw = None
        and tr = "[]" and out = "''ok''" and err = "[]" and ?tr1.0 = "[Exec (hidden_cmd ''ghost'' None) 25]",
        THEN conjunct2, THEN conjunct1, THEN mp, OF r0]
    by blast
  have r1: "''ghost'' \<noteq> []
      \<and> run hidden_fails (hidden_cmd ''ghost'' (Some ''pw'')) 25 []
          = (Inr (10, [], ''no such network''), [Exec (hidden_cmd ''ghost'' (Some ''pw'')) 25])
      \<and> (10::int) \<noteq> 0
      \<and> run hidden_fails (add_cmd ''ghost'' (Some ''pw'')) 15 [Exec (hidden_cmd ''ghost'' (Some ''pw'')) 25]
          = (Inr (0, ''ok'', []),
             [Exec (hidden_cmd ''ghost'' (Some ''pw'')) 25, Exec (add_cmd ''ghost'' (Some ''pw'')) 15])"
    by code_simp
  have up: "commands (snd (connect_hidden_wifi hidden_fails ''ghost'' (Some ''pw'') []))
              = commands [] @ [hidden_cmd ''ghost'' (Some ''pw''), add_cmd ''ghost'' (Some ''pw''), up_cmd ''ghost'']"
    using hidden_network_fallback [where name = "''ghost''" and w = hidden_fails and pw = "Some ''pw''"
        and tr = "[]" and rc = 10 and out = "[]" and err = "''no such network''"
        and ?tr1.0 = "[Exec (hidden_cmd ''ghost'' (Some ''pw'')) 25]"
        and ?rc2.0 = 0 and ?out2.0 = "''ok''" and ?err2.0 = "[]"
        and ?tr2.0 = "[Exec (hidden_cmd ''ghost'' (Some ''pw'')) 25, Exec (add_cmd ''ghost'' (Some ''pw'')) 15]",
        THEN conjunct2, THEN conjunct2, THEN conjunct1, THEN mp, OF r1]
    by simp
  have r2: "''ghost'' \<noteq> []
      \<and> run (answering 10 [] ''failed'') (hidden_cmd ''ghost'' None) 25 []
          = (Inr (10, [], ''failed''), [Exec (hidden_cmd ''ghost'' None) 25])
      \<and> (10::int) \<noteq> 0
      \<and> run (answering 10 [] ''failed'') (add_cmd ''ghost'' None) 15 [Exec (hidden_cmd ''ghost'' None) 25]
          = (Inr (10, [], ''failed''),
             [Exec (hidden_cmd ''ghost'' None) 25, Exec (add_cmd ''ghost'' None) 15])"
    by code_simp
  have ex: "\<not> py_in ''exists'' (py_lower ([] @ ''failed''))"
    by code_simp
  have nobring: "connect_hidden_wifi (answering 10 [] ''failed'') ''ghost'' None []
      = (Inr (False, py_or ''failed'' (py_or [] ''Failed to create connection profile.'')),
         [Exec (hidden_cmd ''ghost'' None) 25, Exec (add_cmd ''ghost'' None) 15])"
    using hidden_network_fallback [where name = "''ghost''" and w = "answering 10 [] ''failed''" and pw = None
        and tr = "[]" and rc = 10 and out = "[]" and err = "''failed''"
        and ?tr1.0 = "[Exec (hidden_cmd ''ghost'' None) 25]"
        and ?rc2.0 = 10 and ?out2.0 = "[]" and ?err2.0 = "''failed''"
        and ?tr2.0 = "[Exec (hidden_cmd ''ghost'' None) 25, Exec (add_cmd ''ghost'' None) 15]",
        THEN conjunct2, THEN conjunct2, THEN conjunct1, THEN mp, OF r2] ex
    by simp
  show ?thesis
    using all once up nobring by (simp add: py_or_def commands_def)
qed

section \<open>The state round trip\<close>

subsection \<open>Strings\<close>

lemma hex_val_hex_digit: "d < 16 \<Longrightarrow> hex_val (hex_digit d) = Some d"
  by (simp add: hex_val_def hex_digit_def Let_def)

lemma hex4_escape:
  assumes "a < 16" and "b < 16"
  shows "hex4 (CHR ''0'' # CHR ''0'' # hex_digit a # hex_digit b # r) = Some (a * 16 + b)"
proof -
  have z: "hex_val CHR ''0'' = Some 0"
    by (simp add: hex_val_def)
  show ?thesis
    using assms by (simp add: hex4_def z hex_val_hex_digit)
qed

lemma char_of_eq_code: "char_of (k::nat) = d \<longleftrightarrow> k mod 256 = (of_char d :: nat)"
  by (metis of_char_of char_of_char)

lemma code_eq_char_of: "d = char_of (k::nat) \<longleftrightarrow> k mod 256 = (of_char d :: nat)"
  by (metis of_char_of char_of_char)

lemma scanstring_escape_char:
  "scanstring (escape_char c @ rest) = scan_cons c (scanstring rest)"
proof -
  define n where "n = (of_char c :: nat)"
  have c: "c = char_of n" and n: "n < 256"
    by (simp_all add: n_def)
  consider (quote) "n = 34" | (backslash) "n = 92" | (nl) "n = 10" | (cr) "n = 13" | (tab) "n = 9"
    | (bsp) "n = 8" | (ff) "n = 12"
    | (plain) "32 \<le> n" "n \<le> 126" "n \<noteq> 34" "n \<noteq> 92"
    | (low) "n < 32" "n \<noteq> 10" "n \<noteq> 13" "n \<noteq> 9" "n \<noteq> 8" "n \<noteq> 12"
    | (high) "126 < n"
    by linarith
  then show ?thesis
  proof cases
    case quote
    then have "c = CHR 0x22" unfolding n_def by (intro of_char_eqI [where ?'a = nat]) simp
    then show ?thesis by (simp add: escape_char_def unescape_def)
  next
    case backslash
    then have "c = CHR 0x5C" unfolding n_def by (intro of_char_eqI [where ?'a = nat]) simp
    then show ?thesis by (simp add: escape_char_def unescape_def)
  next
    case nl
    then have "c = CHR 0x0A" unfolding n_def by (intro of_char_eqI [where ?'a = nat]) simp
    then show ?thesis by (simp add: escape_char_def unescape_def)
  next
    case cr
    then have "c = CHR 0x0D" unfolding n_def by (intro of_char_eqI [where ?'a = nat]) simp
    then show ?thesis by (simp add: escape_char_def unescape_def)
  next
    case tab
    then have "c = CHR 0x09" unfolding n_def by (intro of_char_eqI [where ?'a = nat]) simp
    then show ?thesis by (simp add: escape_char_def unescape_def)
  next
    case bsp
    then have "c = CHR 0x08" unfolding n_def by (intro of_char_eqI [where ?'a = nat]) simp
    then show ?thesis by (simp add: escape_char_def unescape_def)
  next
    case ff
    then have "c = CHR 0x0C" unfolding n_def by (intro of_char_eqI [where ?'a = nat]) simp
    then show ?thesis by (simp add: escape_char_def unescape_def)
  next
    case plain
    then show ?thesis
      using n by (simp add: c escape_char_def char_of_eq_code Let_def)
  next
    case low
    have h: "hex4 (CHR ''0'' # CHR ''0'' # hex_digit (n div 16) # hex_digit (n mod 16) # rest) = Some (n div 16 * 16 + n mod 16)"
      using n by (intro hex4_escape) simp_all
    show ?thesis
      using n low h by (simp add: c escape_char_def char_of_eq_code Let_def)
  next
    case high
    have h: "hex4 (CHR ''0'' # CHR ''0'' # hex_digit (n div 16) # hex_digit (n mod 16) # rest) = Some (n div 16 * 16 + n mod 16)"
      using n by (intro hex4_escape) simp_all
    show ?thesis
      using n high h by (simp add: c escape_char_def char_of_eq_code Let_def)
  qed
qed

lemma scanstring_escaped:
  "scanstring (concat (map escape_char s) @ CHR 0x22 # rest) = Got s rest"
  by (induction s) (simp_all add: scanstring_escape_char scan_cons_def)

subsection \<open>Integers\<close>

lemma is_digit_char_of: "d < 10 \<Longrightarrow> is_digit (char_of (48 + d :: nat))"
  by (simp add: is_digit_def)

lemma digit_val_char_of: "d < 10 \<Longrightarrow> digit_val (char_of (48 + d :: nat)) = d"
  by (simp add: digit_val_def)

lemma nat_of_digits_snoc: "nat_of_digits (ds @ [c]) = 10 * nat_of_digits ds + digit_val c"
  by (simp add: nat_of_digits_def)

lemma show_nat_digits: "c \<in> set (show_nat n) \<Longrightarrow> is_digit c"
proof (induction n arbitrary: c rule: show_nat.induct)
  case (1 n)
  show ?case
  proof (cases "n < 10")
    case True
    with "1.prems" show ?thesis
      by (simp add: show_nat.simps [of n] is_digit_char_of)
  next
    case False
    with "1.prems" "1.IH" show ?thesis
      by (auto simp: show_nat.simps [of n] is_digit_char_of)
  qed
qed

lemma show_nat_nonempty: "show_nat n \<noteq> []"
  by (simp add: show_nat.simps [of n])

lemma nat_of_digits_show_nat: "nat_of_digits (show_nat n) = n"
proof (induction n rule: show_nat.induct)
  case (1 n)
  show ?case
  proof (cases "n < 10")
    case True
    then show ?thesis
      by (simp add: show_nat.simps [of n] nat_of_digits_def digit_val_char_of)
  next
    case False
    with "1.IH" show ?thesis
      by (simp add: show_nat.simps [of n] nat_of_digits_snoc digit_val_char_of)
  qed
qed

lemma show_nat_hd: "0 < n \<Longrightarrow> hd (show_nat n) \<noteq> CHR ''0''"
proof (induction n rule: show_nat.induct)
  case (1 n)
  show ?case
  proof (cases "n < 10")
    case True
    with "1.prems" show ?thesis
      by (simp add: show_nat.simps [of n] char_of_eq_code)
  next
    case False
    then have "0 < n div 10" by simp
    with False "1.IH" show ?thesis
      by (simp add: show_nat.simps [of n] show_nat_nonempty)
  qed
qed

lemma show_nat_zero: "show_nat 0 = ''0''"
  by (simp add: show_nat.simps [of 0] char_of_eq_code)

lemma follows_value_not_digit: "follows_value rest \<Longrightarrow> rest = [] \<or> \<not> is_digit (hd rest)"
  by (auto simp: follows_value_def is_digit_def)

lemma follows_value_not_frac: "follows_value rest \<Longrightarrow> \<not> is_frac rest"
  by (auto simp: follows_value_def is_frac_def split: list.splits)

lemma follows_value_not_exp: "follows_value rest \<Longrightarrow> \<not> is_exp rest"
  by (auto simp: follows_value_def is_exp_def split: list.splits)

lemma takeWhile_digits:
  assumes "\<forall>c \<in> set ds. is_digit c" and "rest = [] \<or> \<not> is_digit (hd rest)"
  shows "takeWhile is_digit (ds @ rest) = ds" and "dropWhile is_digit (ds @ rest) = rest"
  using assms by (cases rest; simp add: takeWhile_append2 dropWhile_append2)+

lemma scan_number_digits:
  assumes "follows_value rest"
  shows "scan_number (show_nat n @ rest) = Got (PInt (int n)) rest"
proof -
  obtain c ds where s: "show_nat n = c # ds"
    using show_nat_nonempty [of n] by (cases "show_nat n") auto
  have dig: "\<forall>x \<in> set (c # ds). is_digit x"
    using show_nat_digits [of _ n] s by auto
  then have c: "is_digit c" and cm: "c \<noteq> CHR ''-''"
    by (auto simp: is_digit_def)
  have nd: "rest = [] \<or> \<not> is_digit (hd rest)"
    using assms by (rule follows_value_not_digit)
  show ?thesis
  proof (cases "n = 0")
    case True
    with s have "c = CHR ''0''" and "ds = []"
      by (simp_all add: show_nat_zero)
    with assms True s show ?thesis
      by (simp add: scan_number_def follows_value_not_frac follows_value_not_exp nat_of_digits_def
          digit_val_def is_digit_def)
  next
    case False
    then have "c \<noteq> CHR ''0''"
      using show_nat_hd [of n] s by simp
    moreover have "takeWhile is_digit (ds @ rest) = ds" "dropWhile is_digit (ds @ rest) = rest"
      using takeWhile_digits [of ds rest] dig nd by simp_all
    moreover have "nat_of_digits (c # ds) = n"
      using nat_of_digits_show_nat [of n] s by simp
    ultimately show ?thesis
      using assms s c cm
      by (simp add: scan_number_def follows_value_not_frac follows_value_not_exp Let_def)
  qed
qed

lemma scan_number_show_int:
  assumes "follows_value rest"
  shows "scan_number (show_int i @ rest) = Got (PInt i) rest"
proof (cases "i < 0")
  case False
  then show ?thesis
    using scan_number_digits [OF assms, of "nat i"] by (simp add: show_int_def)
next
  case True
  define m where "m = nat (- i)"
  have m: "0 < m" and i: "i = - int m"
    using True by (simp_all add: m_def)
  obtain c ds where s: "show_nat m = c # ds"
    using show_nat_nonempty [of m] by (cases "show_nat m") auto
  have dig: "\<forall>x \<in> set (c # ds). is_digit x"
    using show_nat_digits [of _ m] s by auto
  then have c: "is_digit c"
    by auto
  have nd: "rest = [] \<or> \<not> is_digit (hd rest)"
    using assms by (rule follows_value_not_digit)
  have "c \<noteq> CHR ''0''"
    using show_nat_hd [OF m] s by simp
  moreover have "takeWhile is_digit (ds @ rest) = ds" "dropWhile is_digit (ds @ rest) = rest"
    using takeWhile_digits [of ds rest] dig nd by simp_all
  moreover have "nat_of_digits (c # ds) = m"
    using nat_of_digits_show_nat [of m] s by simp
  ultimately show ?thesis
    using assms s c True i
    by (simp add: show_int_def m_def [symmetric] scan_number_def follows_value_not_frac
        follows_value_not_exp Let_def)
qed

lemma show_int_hd: "\<exists>c cs. show_int i = c # cs \<and> (is_digit c \<or> c = CHR ''-'')"
proof (cases "i < 0")
  case True
  then show ?thesis by (simp add: show_int_def)
next
  case False
  obtain c ds where s: "show_nat (nat i) = c # ds"
    using show_nat_nonempty [of "nat i"] by (cases "show_nat (nat i)") auto
  with show_nat_digits [of c "nat i"] False show ?thesis
    by (simp add: show_int_def)
qed

lemma scan_value_show_int:
  assumes "follows_value rest"
  shows "scan_value (show_int i @ rest) = Got (PInt i) rest"
proof -
  obtain c cs where s: "show_int i = c # cs" and c: "is_digit c \<or> c = CHR ''-''"
    using show_int_hd [of i] by blast
  from c have "c \<noteq> CHR 0x22" "c \<noteq> CHR ''{''" "c \<noteq> CHR ''[''" "c \<noteq> CHR ''n''" "c \<noteq> CHR ''t''"
    "c \<noteq> CHR ''f''" "c \<noteq> CHR ''N''" "c \<noteq> CHR ''I''"
    by (auto simp: is_digit_def)
  then have "scan_value (c # cs @ rest) = scan_number (c # cs @ rest)"
    by (simp add: scan_atom_def py_startswith_def)
  with scan_number_show_int [OF assms, of i] s show ?thesis
    by simp
qed

subsection \<open>Arrays and objects\<close>

lemma skip_ws_newline_indent: "skip_ws (newline_indent l @ s) = skip_ws s"
proof -
  have "dropWhile json_ws (replicate (2 * l) CHR '' '' @ s) = dropWhile json_ws s"
    by (rule dropWhile_append2) (simp add: json_ws_def)
  then show ?thesis
    by (simp add: skip_ws_def newline_indent_def json_ws_def)
qed

lemma skip_ws_start: "\<not> json_ws c \<Longrightarrow> skip_ws (c # s) = c # s"
  by (simp add: skip_ws_def)

lemma follows_value_simps:
  "follows_value []" "follows_value (CHR '','' # s)" "follows_value (newline_indent l @ s)"
  by (simp_all add: follows_value_def newline_indent_def)

lemma dumps_at_start:
  "\<exists>c cs. dumps_at l v = c # cs \<and> \<not> json_ws c \<and> c \<noteq> CHR '']''"
proof (cases v)
  case (PInt i)
  obtain c cs where "show_int i = c # cs" and "is_digit c \<or> c = CHR ''-''"
    using show_int_hd [of i] by blast
  with PInt show ?thesis
    by (auto simp: json_ws_def is_digit_def)
qed (auto simp: json_ws_def encode_basestring_ascii_def)

lemma skip_ws_dumps_at: "skip_ws (dumps_at l v @ s) = dumps_at l v @ s"
  using dumps_at_start [of l v] by (auto simp: skip_ws_start)

lemma dumps_at_nonempty: "dumps_at l v \<noteq> []"
  using dumps_at_start [of l v] by auto

declare scan_items.simps [simp del] scan_members.simps [simp del]

lemma scan_items_join:
  assumes "xs \<noteq> []"
    and "\<And>x lv rest. x \<in> set xs \<Longrightarrow> follows_value rest \<Longrightarrow> scan_value (dumps_at lv x @ rest) = Got x rest"
  shows "scan_items acc (py_join (CHR '','' # newline_indent m) (map (dumps_at m) xs)
                          @ newline_indent l @ CHR '']'' # rest) = Got (acc @ xs) rest"
  using assms
proof (induction xs arbitrary: acc rule: list_nonempty_induct)
  case (single x)
  have v: "scan_value (dumps_at m x @ newline_indent l @ CHR '']'' # rest)
             = Got x (newline_indent l @ CHR '']'' # rest)"
    by (rule single) (simp_all add: follows_value_simps)
  have w: "skip_ws (newline_indent l @ CHR '']'' # rest) = CHR '']'' # rest"
    by (simp add: skip_ws_newline_indent skip_ws_start json_ws_def)
  show ?case
    by (subst scan_items.simps) (simp add: v w dumps_at_nonempty)
next
  case (cons x xs)
  obtain y ys where xs: "xs = y # ys"
    using cons.hyps by (cases xs) auto
  let ?tail = "py_join (CHR '','' # newline_indent m) (map (dumps_at m) xs) @ newline_indent l @ CHR '']'' # rest"
  have v: "scan_value (dumps_at m x @ CHR '','' # newline_indent m @ ?tail)
             = Got x (CHR '','' # newline_indent m @ ?tail)"
    by (rule cons.prems) (simp_all add: follows_value_simps)
  have w: "skip_ws (newline_indent m @ ?tail) = ?tail"
    using skip_ws_dumps_at [of m y] by (simp add: xs skip_ws_newline_indent) (cases ys; simp)
  have ih: "scan_items (acc @ [x]) ?tail = Got ((acc @ [x]) @ xs) rest"
    by (rule cons.IH) (simp_all add: cons.prems)
  have "scan_items acc (dumps_at m x @ CHR '','' # newline_indent m @ ?tail) = Got (acc @ x # xs) rest"
    by (subst scan_items.simps) (simp add: v w ih dumps_at_nonempty skip_ws_start json_ws_def)
  then show ?case
    by (simp add: xs)
qed

lemma dict_set_new: "k \<notin> fst ` set d \<Longrightarrow> dict_set d k v = d @ [(k, v)]"
  by (induction d) auto

lemma member_text_tl:
  "tl (member_text m kv @ s)
     = concat (map escape_char (fst kv)) @ CHR 0x22 # CHR '':'' # CHR '' '' # dumps_at m (snd kv) @ s"
  by (simp add: member_text_def encode_basestring_ascii_def)

lemma member_text_hd: "\<exists>cs. member_text m kv = CHR 0x22 # cs"
  by (simp add: member_text_def encode_basestring_ascii_def)

lemma scan_members_join:
  assumes "kvs \<noteq> []"
    and "\<And>kv lv rest. kv \<in> set kvs \<Longrightarrow> follows_value rest \<Longrightarrow>
           scan_value (dumps_at lv (snd kv) @ rest) = Got (snd kv) rest"
    and "distinct (map fst (acc @ kvs))"
  shows "scan_members acc (tl (py_join (CHR '','' # newline_indent m) (map (member_text m) kvs)
                               @ newline_indent l @ CHR ''}'' # rest)) = Got (acc @ kvs) rest"
  using assms
proof (induction kvs arbitrary: acc rule: list_nonempty_induct)
  case (single kv)
  obtain k x where kv: "kv = (k, x)" by (cases kv)
  let ?after = "newline_indent l @ CHR ''}'' # rest"
  have v: "scan_value (dumps_at m x @ ?after) = Got x ?after"
    using single.prems(1) [of kv ?after m] by (simp add: kv follows_value_simps)
  have w: "skip_ws ?after = CHR ''}'' # rest"
    by (simp add: skip_ws_newline_indent skip_ws_start json_ws_def)
  have new: "dict_set acc k x = acc @ [(k, x)]"
    using single.prems(2) by (intro dict_set_new) (auto simp: kv)
  have "scan_members acc (concat (map escape_char k) @ CHR 0x22 # CHR '':'' # CHR '' '' # dumps_at m x @ ?after)
          = Got (acc @ [(k, x)]) rest"
    by (subst scan_members.simps)
       (simp add: scanstring_escaped skip_ws_start json_ws_def skip_ws_def [of "CHR '' '' # _"]
          skip_ws_dumps_at [unfolded skip_ws_def] v w new dumps_at_nonempty)
  then show ?case
    using member_text_tl [of m kv ?after] by (simp add: kv)
next
  case (cons kv kvs)
  obtain k x where kv: "kv = (k, x)" by (cases kv)
  obtain kv' kvs' where kvs: "kvs = kv' # kvs'"
    using cons.hyps by (cases kvs) auto
  let ?tail = "py_join (CHR '','' # newline_indent m) (map (member_text m) kvs) @ newline_indent l @ CHR ''}'' # rest"
  let ?after = "CHR '','' # newline_indent m @ ?tail"
  obtain cs where hd: "?tail = CHR 0x22 # cs" and cs: "cs = tl ?tail"
    using member_text_hd [of m kv'] by (cases kvs'; auto simp: kvs)
  have v: "scan_value (dumps_at m x @ ?after) = Got x ?after"
    using cons.prems(1) [of kv ?after m] by (simp add: kv follows_value_simps)
  have w: "skip_ws (newline_indent m @ ?tail) = CHR 0x22 # cs"
    by (simp add: skip_ws_newline_indent) (simp add: hd skip_ws_start json_ws_def)
  have new: "dict_set acc k x = acc @ [(k, x)]"
    using cons.prems(2) by (intro dict_set_new) (auto simp: kv)
  have ih: "scan_members (acc @ [(k, x)]) cs = Got ((acc @ [(k, x)]) @ kvs) rest"
    unfolding cs using cons.prems by (intro cons.IH) (simp_all add: kv)
  have "scan_members acc (concat (map escape_char k) @ CHR 0x22 # CHR '':'' # CHR '' '' # dumps_at m x @ ?after)
          = Got (acc @ (k, x) # kvs) rest"
    by (subst scan_members.simps)
       (simp add: scanstring_escaped skip_ws_start json_ws_def skip_ws_def [of "CHR '' '' # _"]
          skip_ws_dumps_at [unfolded skip_ws_def] v w new ih dumps_at_nonempty)
  then show ?case
    using member_text_tl [of m kv ?after] by (simp add: kv kvs)
qed

lemma scan_value_dumps_at:
  "json_native v \<Longrightarrow> follows_value rest \<Longrightarrow> scan_value (dumps_at l v @ rest) = Got v rest"
proof (induction v arbitrary: l rest)
  case PNone
  then show ?case by (simp add: scan_atom_def py_startswith_def)
next
  case (PBool b)
  then show ?case by (simp add: scan_atom_def py_startswith_def)
next
  case (PInt i)
  then show ?case by (simp add: scan_value_show_int)
next
  case (PStr s)
  then show ?case by (simp add: encode_basestring_ascii_def scanstring_escaped)
next
  case (PList xs)
  show ?case
  proof (cases "xs = []")
    case True
    then show ?thesis by (simp add: skip_ws_def json_ws_def)
  next
    case False
    let ?body = "py_join (CHR '','' # newline_indent (Suc l)) (map (dumps_at (Suc l)) xs)
                   @ newline_indent l @ CHR '']'' # rest"
    have items: "scan_items [] ?body = Got ([] @ xs) rest"
      using False PList.prems(1) by (intro scan_items_join PList.IH) simp_all
    obtain x xs' where xs: "xs = x # xs'" using False by (cases xs) auto
    obtain c cs where st: "dumps_at (Suc l) x = c # cs" and c: "\<not> json_ws c" "c \<noteq> CHR '']''"
      using dumps_at_start [of "Suc l" x] by blast
    have "\<exists>cs'. ?body = c # cs'"
      by (cases xs') (simp_all add: xs st)
    then obtain cs' where b: "?body = c # cs'" ..
    have w: "skip_ws (newline_indent (Suc l) @ ?body) = c # cs'"
      using c by (simp add: skip_ws_newline_indent) (simp add: b skip_ws_start)
    have "scan_value (CHR ''['' # newline_indent (Suc l) @ ?body) = Got (PList xs) rest"
      using items c by (simp add: w) (simp add: b [symmetric])
    with False show ?thesis by simp
  qed
next
  case (PTuple xs)
  then show ?case by simp
next
  case (PDict kvs)
  show ?case
  proof (cases "kvs = []")
    case True
    then show ?thesis by (simp add: skip_ws_def json_ws_def)
  next
    case False
    let ?body = "py_join (CHR '','' # newline_indent (Suc l)) (map (member_text (Suc l)) kvs)
                   @ newline_indent l @ CHR ''}'' # rest"
    have ih: "scan_value (dumps_at lv (snd kv) @ r) = Got (snd kv) r"
      if "kv \<in> set kvs" "follows_value r" for kv lv r
    proof -
      obtain k x where kv: "kv = (k, x)" by (cases kv)
      from that(1) PDict.prems(1) have "json_native x" by (auto simp: kv)
      with PDict.IH [of kv x] that show ?thesis by (simp add: kv)
    qed
    have members: "scan_members [] (tl ?body) = Got ([] @ kvs) rest"
      using False PDict.prems(1) ih by (intro scan_members_join) simp_all
    obtain kv kvs' where kvs: "kvs = kv # kvs'" using False by (cases kvs) auto
    obtain cs where "member_text (Suc l) kv = CHR 0x22 # cs"
      using member_text_hd [of "Suc l" kv] by blast
    then have "\<exists>cs'. ?body = CHR 0x22 # cs'"
      by (cases kvs') (simp_all add: kvs)
    then obtain cs' where b: "?body = CHR 0x22 # cs'" ..
    then have t: "tl ?body = cs'" by simp
    have w: "skip_ws (newline_indent (Suc l) @ ?body) = CHR 0x22 # cs'"
      by (simp add: skip_ws_newline_indent) (simp add: b skip_ws_start json_ws_def)
    have d: "dumps_at l (PDict kvs)
               = CHR ''{'' # newline_indent (Suc l)
                 @ py_join (CHR '','' # newline_indent (Suc l)) (map (member_text (Suc l)) kvs)
                 @ newline_indent l @ ''}''"
      using False by (simp add: member_text_def [abs_def])
    show ?thesis
      unfolding d using members by (simp add: w t)
  qed
qed

lemma json_loads_dumps: "json_native v \<Longrightarrow> json_loads (json_dumps v) = Value v"
  using scan_value_dumps_at [of v "[]" 0] skip_ws_dumps_at [of 0 v "[]"]
  by (simp add: json_loads_def json_dumps_def follows_value_simps skip_ws_def)

subsection \<open>A scan that returns has consumed a character\<close>

lemma scan_number_shorter:
  assumes "scan_number s = Got v r"
  shows "length r < length s"
proof (cases s)
  case Nil
  with assms show ?thesis by (simp add: scan_number_def)
next
  case (Cons c cs)
  have d: "length (dropWhile is_digit t) \<le> length t" for t
    by (rule length_dropWhile_le)
  show ?thesis
  proof (cases "c = CHR ''-''")
    case True
    with assms Cons show ?thesis
      using d [of "tl cs"]
      by (cases cs) (auto simp: scan_number_def Let_def split: if_splits)
  next
    case False
    with assms Cons show ?thesis
      using d [of cs]
      by (auto simp: scan_number_def Let_def split: if_splits)
  qed
qed

lemma scan_atom_shorter: "scan_atom s = Got v r \<Longrightarrow> length r < length s"
  by (cases s) (auto simp: scan_atom_def py_startswith_def dest: scan_number_shorter split: if_splits)

lemma skip_ws_Cons_length: "skip_ws s = d # r \<Longrightarrow> length r < length s"
  using length_skip_ws [of s] by simp

lemma scan_shorter:
  "\<forall>v r. scan_value s = Got v r \<longrightarrow> length r < length s"
  "\<forall>vs r. scan_items acc s' = Got vs r \<longrightarrow> length r < length s'"
  "\<forall>kvs r. scan_members dict s'' = Got kvs r \<longrightarrow> length r < length s''"
proof (induction s and acc s' and dict s'' rule: scan_value_scan_items_scan_members.induct)
  case 1
  show ?case by simp
next
  case (2 c cs)
  show ?case
  proof (intro allI impI)
    fix v r
    assume a: "scan_value (c # cs) = Got v r"
    consider (str) "c = CHR 0x22" | (obj) "c \<noteq> CHR 0x22" "c = CHR ''{''"
      | (arr) "c \<noteq> CHR 0x22" "c \<noteq> CHR ''{''" "c = CHR ''[''"
      | (atom) "c \<noteq> CHR 0x22" "c \<noteq> CHR ''{''" "c \<noteq> CHR ''[''"
      by blast
    then show "length r < length (c # cs)"
    proof cases
      case str
      with a show ?thesis
        by (auto split: scan.splits dest: scanstring_shorter)
    next
      case atom
      with a show ?thesis
        by (auto dest: scan_atom_shorter)
    next
      case obj
      show ?thesis
      proof (cases "skip_ws cs")
        case Nil
        with a obj show ?thesis by simp
      next
        case (Cons d r0)
        from skip_ws_Cons_length [OF Cons] have l0: "length r0 < length cs" .
        show ?thesis
        proof (cases "d = CHR ''}''")
          case True
          with a obj Cons l0 show ?thesis by simp
        next
          case False
          show ?thesis
          proof (cases "d = CHR 0x22")
            case True
            with a obj Cons False obtain kvs where "scan_members [] r0 = Got kvs r"
              by (auto split: scan.splits)
            with "2.IH"(1) [OF obj Cons False True] l0 show ?thesis by auto
          next
            case nq: False
            with a obj Cons False show ?thesis by simp
          qed
        qed
      qed
    next
      case arr
      show ?thesis
      proof (cases "skip_ws cs")
        case Nil
        with a arr show ?thesis by simp
      next
        case (Cons d r0)
        from skip_ws_Cons_length [OF Cons] have l0: "length r0 < length cs" .
        show ?thesis
        proof (cases "d = CHR '']''")
          case True
          with a arr Cons l0 show ?thesis by simp
        next
          case False
          with a arr Cons obtain xs where "scan_items [] (d # r0) = Got xs r"
            by (auto split: scan.splits)
          with "2.IH"(2) [OF arr Cons False] l0 show ?thesis by auto
        qed
      qed
    qed
  qed
next
  case (3 acc s)
  show ?case
  proof (intro allI impI)
    fix vs r
    assume a: "scan_items acc s = Got vs r"
    then obtain v r1 where v: "scan_value s = Got v r1" and l1: "length r1 < length s"
      by (subst (asm) scan_items.simps) (auto split: scan.splits if_splits)
    from a v l1 obtain d r' where sk: "skip_ws r1 = d # r'"
      by (subst (asm) scan_items.simps) (auto split: list.splits)
    from skip_ws_Cons_length [OF sk] have l2: "length r' < length r1" .
    show "length r < length s"
    proof (cases "d = CHR '']''")
      case True
      with a v l1 sk have "r = r'"
        by (subst (asm) scan_items.simps) simp
      with l1 l2 show ?thesis by simp
    next
      case False
      show ?thesis
      proof (cases "d = CHR '',''")
        case True
        with a v l1 sk False have "scan_items (acc @ [v]) (skip_ws r') = Got vs r"
          by (subst (asm) scan_items.simps) simp
        with "3.IH"(2) [OF v l1 sk False True] have "length r < length (skip_ws r')"
          by blast
        with length_skip_ws [of r'] l1 l2 show ?thesis by simp
      next
        case nc: False
        with a v l1 sk False show ?thesis
          by (subst (asm) scan_items.simps) simp
      qed
    qed
  qed
next
  case (4 acc s)
  show ?case
  proof (intro allI impI)
    fix kvs r
    assume a: "scan_members acc s = Got kvs r"
    then obtain k r1 where k: "scanstring s = Got k r1"
      by (subst (asm) scan_members.simps) (auto split: scan.splits)
    from a k obtain d r2 where s1: "skip_ws r1 = d # r2"
      by (subst (asm) scan_members.simps) (auto split: list.splits)
    from a k s1 have d: "d = CHR '':''"
      by (subst (asm) scan_members.simps) (auto split: if_splits)
    from a k s1 d obtain v r3 where v: "scan_value (skip_ws r2) = Got v r3" and l3: "length r3 < length s"
      by (subst (asm) scan_members.simps) (auto split: scan.splits if_splits)
    from a k s1 d v l3 obtain d' r4 where s3: "skip_ws r3 = d' # r4"
      by (subst (asm) scan_members.simps) (auto split: list.splits)
    from skip_ws_Cons_length [OF s3] have l4: "length r4 < length r3" .
    show "length r < length s"
    proof (cases "d' = CHR ''}''")
      case True
      with a k s1 d v l3 s3 have "r = r4"
        by (subst (asm) scan_members.simps) simp
      with l3 l4 show ?thesis by simp
    next
      case False
      with a k s1 d v l3 s3 have c: "d' = CHR '',''"
        by (subst (asm) scan_members.simps) (auto split: if_splits)
      from a k s1 d v l3 s3 False c obtain q r5 where s4: "skip_ws r4 = q # r5"
        by (subst (asm) scan_members.simps) (auto split: list.splits)
      from skip_ws_Cons_length [OF s4] have l5: "length r5 < length r4" .
      from a k s1 d v l3 s3 False c s4 have q: "q = CHR 0x22"
        by (subst (asm) scan_members.simps) (auto split: if_splits)
      from a k s1 d v l3 s3 False c s4 q have "scan_members (dict_set acc k v) r5 = Got kvs r"
        by (subst (asm) scan_members.simps) simp
      with "4.IH"(2) [OF k s1 d v l3 s3 False c s4 q] have "length r < length r5"
        by blast
      with l3 l4 l5 show ?thesis by simp
    qed
  qed
qed

lemma scan_value_shorter: "scan_value s = Got v r \<Longrightarrow> length r < length s"
  using scan_shorter(1) by blast

subsection \<open>Saving and loading\<close>

text \<open>
  C5, as stated, fails: a mapping with a tuple in it is serialized by \<open>json.dumps\<close>, and
  comes back from the file with a list in the tuple's place.
\<close>

theorem state_round_trip_counterexample:
  "fst (save_state (PDict [(''codes'', PTuple [PInt 1, PInt 2])]) (example_fs Missing)) = Inr ()
   \<and> load_state (snd (save_state (PDict [(''codes'', PTuple [PInt 1, PInt 2])]) (example_fs Missing)))
       = Some (PDict [(''codes'', PList [PInt 1, PInt 2])])
   \<and> load_state (snd (save_state (PDict [(''codes'', PTuple [PInt 1, PInt 2])]) (example_fs Missing)))
       \<noteq> Some (PDict [(''codes'', PTuple [PInt 1, PInt 2])])"
  by code_simp

text \<open>
  C5, amended. For every mapping with string keys whose values are built from \<open>None\<close>,
  booleans, integers, strings, lists and such mappings (no tuple), \<open>save_state\<close>
  succeeds when the directory exists or can be made and the file can be written, and
  \<open>load_state\<close> then returns the mapping.
\<close>

theorem state_round_trip:
  assumes "json_native (PDict d)" and "parent_dir f \<or> may_mkdir f" and "may_write f"
  shows "fst (save_state (PDict d) f) = Inr ()
       \<and> load_state (snd (save_state (PDict d) f)) = Some (PDict d)"
proof -
  have s: "save_state (PDict d) f
             = (Inr (), f\<lparr>parent_dir := True, state_file := Text (json_dumps (PDict d))\<rparr>)"
    using assms(2,3) by (auto simp: save_state_def Let_def)
  have "json_loads (json_dumps (PDict d)) = Value (PDict d)"
    using assms(1) by (rule json_loads_dumps)
  then show ?thesis
    by (simp add: s load_state_def)
qed

theorem state_round_trip_witness:
  "fst (save_state (PDict [(''api_key'', PStr ''k-1''), (''activation_code'', PStr ''123456'')])
         (example_fs Missing)) = Inr ()
   \<and> load_state (snd (save_state (PDict [(''api_key'', PStr ''k-1''), (''activation_code'', PStr ''123456'')])
                        (example_fs Missing)))
       = Some (PDict [(''api_key'', PStr ''k-1''), (''activation_code'', PStr ''123456'')])"
proof -
  have n: "json_native (PDict [(''api_key'', PStr ''k-1''), (''activation_code'', PStr ''123456'')])"
    by simp
  have d: "parent_dir (example_fs Missing) \<or> may_mkdir (example_fs Missing)"
    and w: "may_write (example_fs Missing)"
    by (simp_all add: example_fs_def)
  show ?thesis
    using state_round_trip [OF n d w] .
qed

end
